theory Spec2Isabelle
  imports Complex_Main "HOL-Library.Char_ord" "HOL-Library.List_Lexorder"
begin

text \<open>
  The edge service: the survey store behind \<open>/responses\<close> (write, list, statistics,
  delete by name) over an ordered key-value store, and the chat relay behind \<open>/chat\<close>.
  Each handler of the source is a function of the request, of what the outside gives it
  (the clock, the store's and the upstream's answers) and of the store, to the response
  and the new store.
\<close>

section \<open>JavaScript values the handlers inspect\<close>

text \<open>
  A request body is what \<open>ctx.request.body.json()\<close> parsed. A property that is not
  there reads as \<open>undefined\<close>, which is \<open>None\<close> of \<open>json option\<close> here.
  JSON numbers are rationals (every finite double is one).
\<close>

datatype json =
    JNull
  | JBool bool
  | JNum rat
  | JStr string
  | JArr "json list"
  | JObj "(string \<times> json) list"

text \<open>\<open>!v\<close> is \<open>\<not> truthy v\<close>: undefined, null, false, 0 and the empty string are falsy.\<close>

fun truthy :: "json option \<Rightarrow> bool" where
  "truthy None = False"
| "truthy (Some JNull) = False"
| "truthy (Some (JBool b)) = b"
| "truthy (Some (JNum n)) = (n \<noteq> 0)"
| "truthy (Some (JStr s)) = (s \<noteq> [])"
| "truthy (Some (JArr xs)) = True"
| "truthy (Some (JObj fs)) = True"

fun typeof :: "json option \<Rightarrow> string" where
  "typeof None = ''undefined''"
| "typeof (Some JNull) = ''object''"
| "typeof (Some (JBool b)) = ''boolean''"
| "typeof (Some (JNum n)) = ''number''"
| "typeof (Some (JStr s)) = ''string''"
| "typeof (Some (JArr xs)) = ''object''"
| "typeof (Some (JObj fs)) = ''object''"

fun isArray :: "json option \<Rightarrow> bool" where
  "isArray (Some (JArr xs)) = True"
| "isArray _ = False"

text \<open>
  Reading a property \<open>v.p\<close> of a parsed value, for the property names the handlers read
  (\<open>name\<close>, \<open>responses\<close>, \<open>messages\<close>, \<open>teachLLMs\<close>, \<open>syntheticStudents\<close>): an object
  gives its member (the last one when the text repeated the key, as \<open>JSON.parse\<close> keeps
  it), arrays and primitives have no such property, and reading from \<open>null\<close> or
  \<open>undefined\<close> throws a TypeError, which is \<open>Inl\<close>.
\<close>

datatype exn = TypeError | UpstreamError

fun get_prop :: "json option \<Rightarrow> string \<Rightarrow> exn + json option" where
  "get_prop None p = Inl TypeError"
| "get_prop (Some JNull) p = Inl TypeError"
| "get_prop (Some (JObj fs)) p = Inr (map_of (rev fs) p)"
| "get_prop (Some _) p = Inr None"

text \<open>\<open>v || ""\<close>\<close>

definition or_empty :: "json option \<Rightarrow> json" where
  "or_empty v = (if truthy v then the v else JStr [])"

text \<open>
  The numbers of the query parameters and of the statistics: what \<open>parseInt\<close>,
  \<open>Math.min\<close>, \<open>Math.max\<close> and \<open>-\<close> give on integers, \<open>NaN\<close> and the infinities.
\<close>

datatype jsnum = NaN | NegInf | Fin int | PosInf

fun js_lt :: "jsnum \<Rightarrow> jsnum \<Rightarrow> bool" where
  "js_lt NaN _ = False"
| "js_lt _ NaN = False"
| "js_lt (Fin a) (Fin b) = (a < b)"
| "js_lt NegInf NegInf = False"
| "js_lt NegInf _ = True"
| "js_lt _ NegInf = False"
| "js_lt PosInf _ = False"
| "js_lt _ PosInf = True"

fun js_ge :: "jsnum \<Rightarrow> jsnum \<Rightarrow> bool" where
  "js_ge NaN _ = False"
| "js_ge _ NaN = False"
| "js_ge a b = (\<not> js_lt a b)"

fun truthy_num :: "jsnum \<Rightarrow> bool" where
  "truthy_num NaN = False"
| "truthy_num (Fin n) = (n \<noteq> 0)"
| "truthy_num _ = True"

fun js_min :: "jsnum \<Rightarrow> jsnum \<Rightarrow> jsnum" where
  "js_min NaN _ = NaN"
| "js_min _ NaN = NaN"
| "js_min a b = (if js_lt b a then b else a)"

fun js_max :: "jsnum \<Rightarrow> jsnum \<Rightarrow> jsnum" where
  "js_max NaN _ = NaN"
| "js_max _ NaN = NaN"
| "js_max a b = (if js_lt a b then b else a)"

fun js_sub :: "jsnum \<Rightarrow> jsnum \<Rightarrow> jsnum" where
  "js_sub NaN _ = NaN"
| "js_sub _ NaN = NaN"
| "js_sub (Fin a) (Fin b) = Fin (a - b)"
| "js_sub PosInf PosInf = NaN"
| "js_sub NegInf NegInf = NaN"
| "js_sub PosInf _ = PosInf"
| "js_sub NegInf _ = NegInf"
| "js_sub _ PosInf = NegInf"
| "js_sub _ NegInf = PosInf"

section \<open>The ordered key-value store\<close>

text \<open>
  A key is a tuple of key parts. Of the values JSON can carry, strings, numbers and
  booleans are key parts; the store orders parts of different types strings first, then
  numbers, then booleans, and tuples lexicographically.
\<close>

datatype keypart = KStr string | KNum rat | KBool bool

instantiation keypart :: linorder
begin

fun less_keypart :: "keypart \<Rightarrow> keypart \<Rightarrow> bool" where
  "less_keypart (KStr a) (KStr b) = (a < b)"
| "less_keypart (KStr a) _ = True"
| "less_keypart (KNum a) (KStr b) = False"
| "less_keypart (KNum a) (KNum b) = (a < b)"
| "less_keypart (KNum a) (KBool b) = True"
| "less_keypart (KBool a) (KBool b) = (a < b)"
| "less_keypart (KBool a) _ = False"

definition less_eq_keypart :: "keypart \<Rightarrow> keypart \<Rightarrow> bool" where
  "less_eq_keypart a b = (a < b \<or> a = b)"

instance
proof
  fix x y z :: keypart
  show "(x < y) = (x \<le> y \<and> \<not> y \<le> x)"
    by (cases x; cases y) (auto simp: less_eq_keypart_def)
  show "x \<le> x"
    by (simp add: less_eq_keypart_def)
  show "x \<le> y \<Longrightarrow> y \<le> z \<Longrightarrow> x \<le> z"
    by (cases x; cases y; cases z) (auto simp: less_eq_keypart_def)
  show "x \<le> y \<Longrightarrow> y \<le> x \<Longrightarrow> x = y"
    by (cases x; cases y) (auto simp: less_eq_keypart_def)
  show "x \<le> y \<or> y \<le> x"
    by (cases x; cases y) (auto simp: less_eq_keypart_def)
qed

end

type_synonym key = "keypart list"

text \<open>
  \<open>interface OnboardingResponse\<close>. Nothing checks the declared types at run time: the
  name and the answers hold whatever the body carried.
\<close>

record answers =
  teachLLMs :: json
  syntheticStudents :: json

record OnboardingResponse =
  name :: "json option"
  timestamp :: nat
  responses :: answers

type_synonym entry = "key \<times> OnboardingResponse"

text \<open>The store: its entries in ascending key order, one per key.\<close>

type_synonym kv = "entry list"

fun kv_set :: "key \<Rightarrow> OnboardingResponse \<Rightarrow> kv \<Rightarrow> kv" where
  "kv_set k v [] = [(k, v)]"
| "kv_set k v ((k', v') # s) =
     (if k < k' then (k, v) # (k', v') # s
      else if k = k' then (k, v) # s
      else (k', v') # kv_set k v s)"

definition kv_delete :: "key \<Rightarrow> kv \<Rightarrow> kv" where
  "kv_delete k s = filter (\<lambda>e. fst e \<noteq> k) s"

text \<open>
  \<open>kv.list({ prefix })\<close>: the entries whose key extends the prefix, in key order. The
  handlers are modelled for scans that the store completes; the failures of the store
  that are modelled are those of \<open>kv.set\<close> and \<open>kv.delete\<close>.
\<close>

definition kv_list :: "key \<Rightarrow> kv \<Rightarrow> entry list" where
  "kv_list pre s = filter (\<lambda>e. length pre < length (fst e) \<and> take (length pre) (fst e) = pre) s"

text \<open>What \<open>kv.set\<close> accepts as a key part of the values a body can carry.\<close>

fun key_part :: "json option \<Rightarrow> exn + keypart" where
  "key_part (Some (JStr s)) = Inr (KStr s)"
| "key_part (Some (JNum n)) = Inr (KNum n)"
| "key_part (Some (JBool b)) = Inr (KBool b)"
| "key_part _ = Inl TypeError"

section \<open>Responses\<close>

record item = OnboardingResponse +
  key :: key

record metadata =
  meta_limit :: jsnum
  meta_offset :: jsnum
  count :: nat
  filters_since :: "jsnum option"
  filters_name :: "string option"

record stats_body =
  total :: nat
  uniqueParticipants :: nat
  first :: "jsnum option"
  last :: "jsnum option"
  durationMs :: jsnum

text \<open>What the relay did to the controller of its \<open>ReadableStream\<close>.\<close>

datatype stream_state = Readable | Closed | Errored

record controller =
  state :: stream_state
  frames :: "string list"

text \<open>
  The bodies a handler sets. \<open>Deleted n\<close> is \<open>{ success: true, deleted: n, message }\<close>;
  the message repeats the count and the name. \<open>Stream c\<close> is the event stream whose
  controller ended as \<open>c\<close>. Headers are left out.
\<close>

datatype body_out =
    Error string
  | Success
  | Listing "item list" metadata
  | Stats stats_body
  | Deleted nat
  | Stream controller

record response =
  status :: nat
  body :: body_out

definition internal_error :: response where
  "internal_error = \<lparr>status = 500, body = Error ''Internal server error''\<rparr>"

section \<open>POST /responses\<close>

text \<open>
  \<open>now\<close> is what \<open>Date.now()\<close> returns, \<open>set_rejects\<close> says for which key and value
  the store's \<open>kv.set\<close> rejects, and \<open>req\<close> is the parsed body, \<open>None\<close> when
  \<open>body.json()\<close> throws. Every throw inside the handler ends in its \<open>catch\<close>.
\<close>

definition responses_key :: "nat \<Rightarrow> keypart \<Rightarrow> key" where
  "responses_key t n = [KStr ''responses'', KNum (of_nat t), n]"

definition post_responses ::
  "nat \<Rightarrow> (key \<Rightarrow> OnboardingResponse \<Rightarrow> bool) \<Rightarrow> json option \<Rightarrow> kv \<Rightarrow> response \<times> kv" where
  "post_responses now set_rejects req s =
     (case req of
        None \<Rightarrow> (internal_error, s)
      | Some b \<Rightarrow>
          (case (get_prop (Some b) ''name'', get_prop (Some b) ''responses'') of
             (Inr nm, Inr rs) \<Rightarrow>
               if \<not> truthy rs \<or> typeof rs \<noteq> ''object''
               then (\<lparr>status = 400, body = Error ''Invalid response format''\<rparr>, s)
               else
                 (case (get_prop rs ''teachLLMs'', get_prop rs ''syntheticStudents'') of
                    (Inr t, Inr y) \<Rightarrow>
                      let response = \<lparr>name = nm, timestamp = now,
                            responses = \<lparr>teachLLMs = or_empty t, syntheticStudents = or_empty y\<rparr>\<rparr>
                      in (case key_part nm of
                            Inl e \<Rightarrow> (internal_error, s)
                          | Inr n \<Rightarrow>
                              if set_rejects (responses_key now n) response
                              then (internal_error, s)
                              else (\<lparr>status = 200, body = Success\<rparr>,
                                    kv_set (responses_key now n) response s))
                  | _ \<Rightarrow> (internal_error, s))
           | _ \<Rightarrow> (internal_error, s)))"

section \<open>GET /responses\<close>

text \<open>
  \<open>params\<close> after the query string was parsed: \<open>parseInt\<close> gives an integer, \<open>NaN\<close> or
  an infinity, and \<open>searchParams.get("name")\<close> a string or \<open>null\<close>.
\<close>

record params =
  limit :: jsnum
  offset :: jsnum
  since :: jsnum
  name_filter :: "string option"

definition with_key :: "entry \<Rightarrow> item" where
  "with_key e = \<lparr>name = name (snd e), timestamp = timestamp (snd e),
                 responses = responses (snd e), key = fst e\<rparr>"

text \<open>
  The \<open>for await\<close> loop over the iterator, with its \<open>continue\<close> and \<open>break\<close>. Beside
  \<open>skipped\<close>, \<open>included\<close> and \<open>responses\<close> it counts the entries taken from the iterator.
\<close>

fun list_loop :: "params \<Rightarrow> entry list \<Rightarrow> nat \<Rightarrow> nat \<Rightarrow> item list \<Rightarrow> nat \<Rightarrow> item list \<times> nat" where
  "list_loop p [] skipped included acc taken = (acc, taken)"
| "list_loop p (e # es) skipped included acc taken =
     (if truthy_num (since p) \<and> js_lt (Fin (int (timestamp (snd e)))) (since p)
      then list_loop p es skipped included acc (Suc taken)
      else if truthy (map_option JStr (name_filter p))
              \<and> name (snd e) \<noteq> map_option JStr (name_filter p)
      then list_loop p es skipped included acc (Suc taken)
      else if js_lt (Fin (int skipped)) (offset p)
      then list_loop p es (Suc skipped) included acc (Suc taken)
      else if js_ge (Fin (int included)) (limit p)
      then (acc, Suc taken)
      else list_loop p es skipped (Suc included) (acc @ [with_key e]) (Suc taken))"

definition or_null :: "jsnum \<Rightarrow> jsnum option" where
  "or_null n = (if truthy_num n then Some n else None)"

definition get_responses :: "params \<Rightarrow> kv \<Rightarrow> response" where
  "get_responses p s =
     (let responses = fst (list_loop p (kv_list [KStr ''responses''] s) 0 0 [] 0)
      in \<lparr>status = 200,
          body = Listing responses
            \<lparr>meta_limit = limit p, meta_offset = offset p, count = length responses,
             filters_since = or_null (since p),
             filters_name = (if truthy (map_option JStr (name_filter p))
                             then name_filter p else None)\<rparr>\<rparr>)"

section \<open>GET /responses/stats\<close>

record stats =
  acc_total :: nat
  uniqueNames :: "json option set"
  acc_first :: jsnum
  acc_last :: jsnum

definition stats_step :: "stats \<Rightarrow> entry \<Rightarrow> stats" where
  "stats_step st e =
     \<lparr>acc_total = Suc (acc_total st),
      uniqueNames = insert (name (snd e)) (uniqueNames st),
      acc_first = js_min (acc_first st) (Fin (int (timestamp (snd e)))),
      acc_last = js_max (acc_last st) (Fin (int (timestamp (snd e))))\<rparr>"

definition get_stats :: "kv \<Rightarrow> response" where
  "get_stats s =
     (let st = foldl stats_step
                 \<lparr>acc_total = 0, uniqueNames = {}, acc_first = PosInf, acc_last = Fin 0\<rparr>
                 (kv_list [KStr ''responses''] s)
      in \<lparr>status = 200,
          body = Stats
            \<lparr>total = acc_total st,
             uniqueParticipants = card (uniqueNames st),
             first = (if acc_first st = PosInf then None else Some (acc_first st)),
             last = (if acc_last st = Fin 0 then None else Some (acc_last st)),
             durationMs = js_sub (acc_last st) (acc_first st)\<rparr>\<rparr>)"

section \<open>DELETE /responses/:name\<close>

text \<open>
  The scan dispatches one \<open>kv.delete\<close> per matching entry and counts it;
  \<open>delete_rejects\<close> says which of them reject. A delete that rejects leaves its entry,
  and \<open>Promise.all\<close> then rejects, which ends in the handler's \<open>catch\<close>.
\<close>

definition delete_responses :: "(key \<Rightarrow> bool) \<Rightarrow> string option \<Rightarrow> kv \<Rightarrow> response \<times> kv" where
  "delete_responses delete_rejects nm s =
     (if \<not> truthy (map_option JStr nm)
      then (\<lparr>status = 400, body = Error ''Name parameter is required''\<rparr>, s)
      else
        let deleteOps = map fst (filter (\<lambda>e. name (snd e) = map_option JStr nm)
                                   (kv_list [KStr ''responses''] s));
            count = length deleteOps;
            s' = fold kv_delete (filter (\<lambda>k. \<not> delete_rejects k) deleteOps) s
        in if list_ex delete_rejects deleteOps
           then (internal_error, s')
           else (\<lparr>status = 200, body = Deleted count\<rparr>, s'))"

section \<open>POST /chat\<close>

text \<open>
  A chunk of the upstream stream, read as \<open>chunk.choices[0]?.delta?.content\<close>: the list
  of choices may be empty, a choice may have no delta, and the content may be absent or
  \<open>null\<close> (both \<open>None\<close>).
\<close>

datatype delta = Delta (content: "string option")

datatype choice = Choice (delta: "delta option")

datatype chunk = Chunk (choices: "choice list")

definition content_of :: "chunk \<Rightarrow> string option" where
  "content_of ch =
     (case choices ch of
        [] \<Rightarrow> None
      | c # _ \<Rightarrow> (case delta c of None \<Rightarrow> None | Some d \<Rightarrow> content d))"

text \<open>
  The upstream stream: the chunks it yields and then either its natural end (\<open>None\<close>) or
  the error its iterator throws.
\<close>

datatype upstream = Upstream "chunk list" "exn option"

text \<open>
  The controller of a \<open>ReadableStream\<close>: \<open>enqueue\<close> and \<open>close\<close> throw a TypeError unless
  the stream is readable and not yet closed, \<open>error\<close> does nothing then. \<open>frames\<close> holds
  what was enqueued, in order. Only \<open>start\<close> acts on the controller: no reader cancels
  the stream meanwhile.
\<close>

definition new_controller :: controller where
  "new_controller = \<lparr>state = Readable, frames = []\<rparr>"

definition enqueue :: "controller \<Rightarrow> string \<Rightarrow> exn + controller" where
  "enqueue c f = (if state c = Readable then Inr (c\<lparr>frames := frames c @ [f]\<rparr>) else Inl TypeError)"

definition controller_error :: "controller \<Rightarrow> controller" where
  "controller_error c = (if state c = Readable then c\<lparr>state := Errored\<rparr> else c)"

definition controller_close :: "controller \<Rightarrow> exn + controller" where
  "controller_close c = (if state c = Readable then Inr (c\<lparr>state := Closed\<rparr>) else Inl TypeError)"

definition frame :: "string \<Rightarrow> string" where
  "frame text = ''data: '' @ text @ ''\<newline>\<newline>''"

definition done_frame :: string where
  "done_frame = ''data: [DONE]\<newline>\<newline>''"

text \<open>The \<open>for await\<close> loop of \<open>start\<close>; a throw leaves it with the controller as it is.\<close>

fun pump :: "chunk list \<Rightarrow> controller \<Rightarrow> exn option \<times> controller" where
  "pump [] c = (None, c)"
| "pump (ch # rest) c =
     (if truthy (map_option JStr (content_of ch))
      then (case enqueue c (frame (the (content_of ch))) of
              Inl e \<Rightarrow> (Some e, c)
            | Inr c' \<Rightarrow> pump rest c')
      else pump rest c)"

text \<open>
  \<open>start(controller)\<close> with its \<open>try\<close>, \<open>catch\<close> and \<open>finally\<close>. The result is what the
  function throws at the end, if anything, and the controller it leaves.
\<close>

definition try_block :: "upstream \<Rightarrow> controller \<Rightarrow> exn option \<times> controller" where
  "try_block up c =
     (case up of Upstream chunks fin \<Rightarrow>
        (case pump chunks c of
           (Some e, c') \<Rightarrow> (Some e, c')
         | (None, c') \<Rightarrow>
             (case fin of
                Some e \<Rightarrow> (Some e, c')
              | None \<Rightarrow>
                  (case enqueue c' done_frame of
                     Inl e \<Rightarrow> (Some e, c')
                   | Inr c'' \<Rightarrow> (None, c'')))))"

definition start :: "upstream \<Rightarrow> controller \<Rightarrow> exn option \<times> controller" where
  "start up c =
     (let caught = (case try_block up c of
                      (Some e, c') \<Rightarrow> controller_error c'
                    | (None, c') \<Rightarrow> c')
      in (case controller_close caught of
            Inl e \<Rightarrow> (Some e, caught)
          | Inr c' \<Rightarrow> (None, c')))"

text \<open>
  The handler. \<open>create\<close> is \<open>openai.chat.completions.create\<close> on the messages: it throws
  or gives the stream. The second result lists the messages of every upstream call made.
\<close>

definition post_chat :: "(json \<Rightarrow> exn + upstream) \<Rightarrow> json option \<Rightarrow> response \<times> json list" where
  "post_chat create req =
     (case req of
        None \<Rightarrow> (internal_error, [])
      | Some b \<Rightarrow>
          (case get_prop (Some b) ''messages'' of
             Inl e \<Rightarrow> (internal_error, [])
           | Inr messages \<Rightarrow>
               if \<not> truthy messages \<or> \<not> isArray messages
               then (\<lparr>status = 400, body = Error ''Invalid messages format''\<rparr>, [])
               else
                 (case create (the messages) of
                    Inl e \<Rightarrow> (internal_error, [the messages])
                  | Inr up \<Rightarrow>
                      (\<lparr>status = 200, body = Stream (snd (start up new_controller))\<rparr>,
                       [the messages]))))"

section \<open>Notions of the specification\<close>

text \<open>The non-empty text contents of the fragments, in upstream order.\<close>

definition texts :: "chunk list \<Rightarrow> string list" where
  "texts chunks = filter (\<lambda>t. t \<noteq> []) (List.map_filter content_of chunks)"

text \<open>
  A sequence of role/content turns: an array whose elements are objects with a string
  \<open>role\<close> and a string \<open>content\<close>.
\<close>

definition role_content_turn :: "json \<Rightarrow> bool" where
  "role_content_turn j =
     (case j of
        JObj fs \<Rightarrow>
          (case (map_of (rev fs) ''role'', map_of (rev fs) ''content'') of
             (Some (JStr r), Some (JStr c)) \<Rightarrow> True
           | _ \<Rightarrow> False)
      | _ \<Rightarrow> False)"

definition turn_sequence :: "json option \<Rightarrow> bool" where
  "turn_sequence m = (case m of Some (JArr xs) \<Rightarrow> list_all role_content_turn xs | _ \<Rightarrow> False)"

text \<open>A structured value of JSON: an object or an array.\<close>

definition structured :: "json option \<Rightarrow> bool" where
  "structured v = (case v of Some (JObj fs) \<Rightarrow> True | Some (JArr xs) \<Rightarrow> True | _ \<Rightarrow> False)"

text \<open>The key a record belongs under: \<open>("responses", timestamp, name)\<close>.\<close>

definition key_of :: "OnboardingResponse \<Rightarrow> key option" where
  "key_of r =
     (case key_part (name r) of
        Inl e \<Rightarrow> None
      | Inr n \<Rightarrow> Some (responses_key (timestamp r) n))"

definition key_inv :: "kv \<Rightarrow> bool" where
  "key_inv s = list_all (\<lambda>e. key_of (snd e) = Some (fst e)) s"

text \<open>
  The store states the service reaches from the empty store: by any request to
  \<open>POST /responses\<close> and any request to \<open>DELETE /responses/:name\<close>, at any time and
  whatever the store rejects.
\<close>

inductive reachable :: "kv \<Rightarrow> bool" where
  reach_empty: "reachable []"
| reach_write: "reachable s \<Longrightarrow> reachable (snd (post_responses now set_rejects req s))"
| reach_delete: "reachable s \<Longrightarrow> reachable (snd (delete_responses delete_rejects nm s))"

text \<open>The records under the \<open>responses\<close> prefix, as a scan meets them.\<close>

definition scanned :: "kv \<Rightarrow> entry list" where
  "scanned s = kv_list [KStr ''responses''] s"

definition timestamps :: "entry list \<Rightarrow> nat list" where
  "timestamps es = map (\<lambda>e. timestamp (snd e)) es"

definition names :: "entry list \<Rightarrow> json option list" where
  "names es = map (\<lambda>e. name (snd e)) es"

text \<open>The records whose name field matches the name of a delete request.\<close>

definition matching :: "string \<Rightarrow> kv \<Rightarrow> entry list" where
  "matching n s = filter (\<lambda>e. name (snd e) = Some (JStr n)) (scanned s)"

text \<open>
  A filter \<open>{limit, offset, since, name}\<close> of natural \<open>limit\<close> and \<open>offset\<close>, an integer
  \<open>since\<close> and an optional \<open>name\<close>, and the entries that pass it: the timestamp is at
  least \<open>since\<close>, and the name is the one asked for when a non-empty one is asked for.
\<close>

definition query :: "nat \<Rightarrow> nat \<Rightarrow> int \<Rightarrow> string option \<Rightarrow> params" where
  "query lmt off sn nf =
     \<lparr>limit = Fin (int lmt), offset = Fin (int off), since = Fin sn, name_filter = nf\<rparr>"

definition passes :: "int \<Rightarrow> string option \<Rightarrow> entry \<Rightarrow> bool" where
  "passes sn nf e =
     (sn \<le> int (timestamp (snd e))
      \<and> (case nf of None \<Rightarrow> True | Some n \<Rightarrow> n = [] \<or> name (snd e) = Some (JStr n)))"

text \<open>
  The length of the shortest prefix of \<open>xs\<close> that holds \<open>n + 1\<close> elements satisfying
  \<open>P\<close>, and the length of \<open>xs\<close> when there is none.
\<close>

fun prefix_len :: "('a \<Rightarrow> bool) \<Rightarrow> nat \<Rightarrow> 'a list \<Rightarrow> nat" where
  "prefix_len P n [] = 0"
| "prefix_len P n (x # xs) =
     (if P x then (case n of 0 \<Rightarrow> 1 | Suc m \<Rightarrow> Suc (prefix_len P m xs))
      else Suc (prefix_len P n xs))"

text \<open>
  The entry that a write of the name \<open>n\<close> with the empty answers object stores at time
  \<open>t\<close>.
\<close>

definition stored :: "nat \<Rightarrow> string \<Rightarrow> entry" where
  "stored t n =
     (responses_key t (KStr n),
      \<lparr>name = Some (JStr n), timestamp = t,
       responses = \<lparr>teachLLMs = JStr [], syntheticStudents = JStr []\<rparr>\<rparr>)"

section \<open>The chat relay\<close>

lemma pump_readable:
  "state c = Readable \<Longrightarrow>
   pump chunks c = (None, c\<lparr>frames := frames c @ map frame (texts chunks)\<rparr>)"
proof (induction chunks arbitrary: c)
  case Nil
  then show ?case by (simp add: texts_def)
next
  case (Cons ch rest)
  show ?case
  proof (cases "content_of ch")
    case None
    with Cons show ?thesis by (simp add: texts_def)
  next
    case (Some t)
    with Cons show ?thesis
      by (cases "t = []") (simp_all add: texts_def enqueue_def)
  qed
qed

text \<open>
  C4. When the upstream stream ends naturally after any finite sequence of fragments,
  the relay has enqueued one frame \<open>data: <text>\<newline>\<newline>\<close> per fragment with non-empty
  text, in upstream order, then the one frame \<open>data: [DONE]\<newline>\<newline>\<close>, and has closed the
  stream. The fragments \<open>Hel\<close>, \<open>lo\<close> give exactly the three frames of the scenario.
  That stream is the body of the handler's response to a body with an array of messages.
\<close>

theorem relay_natural_end:
  "start (Upstream chunks None) new_controller
     = (None, \<lparr>state = Closed, frames = map frame (texts chunks) @ [done_frame]\<rparr>)
   \<and> start (Upstream [Chunk [Choice (Some (Delta (Some ''Hel'')))],
                       Chunk [Choice (Some (Delta (Some ''lo'')))]] None) new_controller
     = (None, \<lparr>state = Closed,
               frames = [''data: Hel\<newline>\<newline>'', ''data: lo\<newline>\<newline>'',
                         ''data: [DONE]\<newline>\<newline>'']\<rparr>)
   \<and> post_chat (\<lambda>m. Inr (Upstream chunks None)) (Some (JObj [(''messages'', JArr ms)]))
     = (\<lparr>status = 200,
         body = Stream \<lparr>state = Closed, frames = map frame (texts chunks) @ [done_frame]\<rparr>\<rparr>,
        [JArr ms])"
proof -
  have gen: "start (Upstream cs None) new_controller
     = (None, \<lparr>state = Closed, frames = map frame (texts cs) @ [done_frame]\<rparr>)" for cs
    by (simp add: start_def try_block_def pump_readable new_controller_def enqueue_def
        controller_close_def)
  have tx: "texts [Chunk [Choice (Some (Delta (Some ''Hel'')))],
                   Chunk [Choice (Some (Delta (Some ''lo'')))]] = [''Hel'', ''lo'']"
    by (simp add: texts_def content_of_def)
  have h: "post_chat (\<lambda>m. Inr (Upstream chunks None)) (Some (JObj [(''messages'', JArr ms)]))
     = (\<lparr>status = 200, body = Stream (snd (start (Upstream chunks None) new_controller))\<rparr>,
        [JArr ms])"
    by (simp add: post_chat_def)
  show ?thesis
    unfolding h gen tx by (simp add: frame_def done_frame_def)
qed

theorem relay_natural_end_witness:
  "post_chat (\<lambda>m. Inr (Upstream [Chunk [Choice (Some (Delta (Some ''Hel'')))],
                                   Chunk [],
                                   Chunk [Choice None],
                                   Chunk [Choice (Some (Delta None))],
                                   Chunk [Choice (Some (Delta (Some [])))],
                                   Chunk [Choice (Some (Delta (Some ''lo'')))]] None))
     (Some (JObj [(''messages'', JArr [JObj [(''role'', JStr ''user''), (''content'', JStr ''hi'')]])]))
   = (\<lparr>status = 200,
       body = Stream \<lparr>state = Closed,
                      frames = [''data: Hel\<newline>\<newline>'', ''data: lo\<newline>\<newline>'',
                                ''data: [DONE]\<newline>\<newline>'']\<rparr>\<rparr>,
      [JArr [JObj [(''role'', JStr ''user''), (''content'', JStr ''hi'')]]])"
  using relay_natural_end [of "[Chunk [Choice (Some (Delta (Some ''Hel'')))],
                                Chunk [],
                                Chunk [Choice None],
                                Chunk [Choice (Some (Delta None))],
                                Chunk [Choice (Some (Delta (Some [])))],
                                Chunk [Choice (Some (Delta (Some ''lo'')))]]"
      "[JObj [(''role'', JStr ''user''), (''content'', JStr ''hi'')]]"]
  by (simp add: texts_def content_of_def frame_def done_frame_def)

text \<open>
  C5. When the upstream iterator throws after yielding some fragments, the frames
  enqueued are exactly those of the non-empty fragments yielded before, nothing more
  (no \<open>[DONE]\<close> frame is added), and the stream ends errored, not closed: the
  \<open>controller.close()\<close> of the \<open>finally\<close> block finds the stream errored and throws.
  The response has been given its status by then and keeps it.
\<close>

theorem relay_upstream_error:
  "start (Upstream chunks (Some e)) new_controller
     = (Some TypeError, \<lparr>state = Errored, frames = map frame (texts chunks)\<rparr>)
   \<and> post_chat (\<lambda>m. Inr (Upstream chunks (Some e))) (Some (JObj [(''messages'', JArr ms)]))
     = (\<lparr>status = 200,
         body = Stream \<lparr>state = Errored, frames = map frame (texts chunks)\<rparr>\<rparr>,
        [JArr ms])"
proof -
  have gen: "start (Upstream chunks (Some e)) new_controller
     = (Some TypeError, \<lparr>state = Errored, frames = map frame (texts chunks)\<rparr>)"
    by (simp add: start_def try_block_def pump_readable new_controller_def
        controller_error_def controller_close_def)
  have h: "post_chat (\<lambda>m. Inr (Upstream chunks (Some e))) (Some (JObj [(''messages'', JArr ms)]))
     = (\<lparr>status = 200, body = Stream (snd (start (Upstream chunks (Some e)) new_controller))\<rparr>,
        [JArr ms])"
    by (simp add: post_chat_def)
  show ?thesis
    unfolding h gen by simp
qed

theorem relay_upstream_error_witness:
  "post_chat (\<lambda>m. Inr (Upstream [Chunk [Choice (Some (Delta (Some ''Hel'')))],
                                   Chunk [Choice (Some (Delta (Some [])))]]
                          (Some UpstreamError)))
     (Some (JObj [(''messages'', JArr [JObj [(''role'', JStr ''user''), (''content'', JStr ''hi'')]])]))
   = (\<lparr>status = 200,
       body = Stream \<lparr>state = Errored, frames = [''data: Hel\<newline>\<newline>'']\<rparr>\<rparr>,
      [JArr [JObj [(''role'', JStr ''user''), (''content'', JStr ''hi'')]]])"
  using relay_upstream_error [of "[Chunk [Choice (Some (Delta (Some ''Hel'')))],
                                   Chunk [Choice (Some (Delta (Some [])))]]"
      UpstreamError "[JObj [(''role'', JStr ''user''), (''content'', JStr ''hi'')]]"]
  by (simp add: texts_def content_of_def frame_def)

lemma isArray_truthy: "isArray m \<Longrightarrow> truthy m"
  by (cases m rule: isArray.cases) simp_all

text \<open>
  C9, as the code has it. The handler tests only that \<open>messages\<close> is an array. A body
  that parsed to a value other than \<open>null\<close> and whose \<open>messages\<close> is missing or not an
  array gets 400 with \<open>Invalid messages format\<close>, and no upstream call is made; an
  array, whatever its elements, is passed on in one upstream call. A body that does not
  parse, or is \<open>null\<close>, gets 500, again without an upstream call.
\<close>

theorem chat_validation:
  "post_chat create None = (internal_error, [])
   \<and> post_chat create (Some JNull) = (internal_error, [])
   \<and> (get_prop (Some b) ''messages'' = Inr m \<longrightarrow>
        (if isArray m
         then snd (post_chat create (Some b)) = [the m]
         else post_chat create (Some b)
                = (\<lparr>status = 400, body = Error ''Invalid messages format''\<rparr>, [])))"
  by (auto simp: post_chat_def isArray_truthy split: sum.splits)

theorem chat_validation_witness:
  "get_prop (Some (JObj [(''prompt'', JStr ''hi'')])) ''messages'' = Inr None
   \<and> \<not> isArray None
   \<and> post_chat (\<lambda>m. Inr (Upstream [] None)) (Some (JObj [(''prompt'', JStr ''hi'')]))
       = (\<lparr>status = 400, body = Error ''Invalid messages format''\<rparr>, [])
   \<and> get_prop (Some (JObj [(''messages'', JStr ''hi'')])) ''messages'' = Inr (Some (JStr ''hi''))
   \<and> post_chat (\<lambda>m. Inr (Upstream [] None)) (Some (JObj [(''messages'', JStr ''hi'')]))
       = (\<lparr>status = 400, body = Error ''Invalid messages format''\<rparr>, [])
   \<and> isArray (Some (JArr [JObj [(''role'', JStr ''user''), (''content'', JStr ''hi'')]]))
   \<and> snd (post_chat (\<lambda>m. Inr (Upstream [] None))
        (Some (JObj [(''messages'',
                      JArr [JObj [(''role'', JStr ''user''), (''content'', JStr ''hi'')]])])))
       = [JArr [JObj [(''role'', JStr ''user''), (''content'', JStr ''hi'')]]]"
  using chat_validation [of "\<lambda>m. Inr (Upstream [] None)" "JObj [(''prompt'', JStr ''hi'')]" None]
    chat_validation [of "\<lambda>m. Inr (Upstream [] None)" "JObj [(''messages'', JStr ''hi'')]"
      "Some (JStr ''hi'')"]
    chat_validation [of "\<lambda>m. Inr (Upstream [] None)"
      "JObj [(''messages'', JArr [JObj [(''role'', JStr ''user''), (''content'', JStr ''hi'')]])]"
      "Some (JArr [JObj [(''role'', JStr ''user''), (''content'', JStr ''hi'')]])"]
  by simp

text \<open>
  The body \<open>{"messages": [42]}\<close> holds no role/content turn, yet it passes the test
  and the upstream is called with it: the response is the event stream when the
  upstream gives one, and 500 when the upstream call throws.
\<close>

theorem chat_validation_counterexample:
  "\<not> turn_sequence (Some (JArr [JNum 42]))
   \<and> post_chat (\<lambda>m. Inr (Upstream [] None)) (Some (JObj [(''messages'', JArr [JNum 42])]))
       = (\<lparr>status = 200, body = Stream \<lparr>state = Closed, frames = [done_frame]\<rparr>\<rparr>,
          [JArr [JNum 42]])
   \<and> post_chat (\<lambda>m. Inl UpstreamError) (Some (JObj [(''messages'', JArr [JNum 42])]))
       = (\<lparr>status = 500, body = Error ''Internal server error''\<rparr>, [JArr [JNum 42]])"
  by (simp add: turn_sequence_def role_content_turn_def post_chat_def start_def try_block_def
      new_controller_def enqueue_def controller_close_def internal_error_def)

section \<open>The store and its keys\<close>

lemma set_kv_set: "set (kv_set k v s) \<subseteq> insert (k, v) (set s)"
  by (induction s) (auto split: if_splits)

lemma keys_kv_set: "fst ` set (kv_set k v s) = insert k (fst ` set s)"
proof (induction s)
  case Nil
  then show ?case by simp
next
  case (Cons e s)
  obtain k' v' where e: "e = (k', v')" by (cases e)
  show ?case
    unfolding e using Cons.IH by (simp add: insert_commute)
qed

lemma set_kv_set_new: "k \<notin> fst ` set s \<Longrightarrow> set (kv_set k v s) = insert (k, v) (set s)"
proof (induction s)
  case Nil
  then show ?case by simp
next
  case (Cons e s)
  obtain k' v' where e: "e = (k', v')" by (cases e)
  from Cons.prems have "k \<noteq> k'" "k \<notin> fst ` set s" by (auto simp: e)
  with Cons.IH show ?case
    unfolding e by (simp add: insert_commute)
qed

lemma map_of_kv_set: "map_of (kv_set k v s) = (map_of s)(k \<mapsto> v)"
  by (induction s) (auto simp: fun_upd_twist)

lemma length_kv_set: "k \<notin> fst ` set s \<Longrightarrow> length (kv_set k v s) = Suc (length s)"
  by (induction s) auto

lemma sorted_kv_set:
  "sorted_wrt (<) (map fst s) \<Longrightarrow> sorted_wrt (<) (map fst (kv_set k v s))"
proof (induction s)
  case Nil
  then show ?case by simp
next
  case (Cons e s)
  obtain k' v' where e: "e = (k', v')" by (cases e)
  show ?case
  proof (cases "k < k'")
    case True
    with Cons.prems e show ?thesis by (auto simp: image_iff)
  next
    case False
    show ?thesis
    proof (cases "k = k'")
      case True
      with Cons.prems e show ?thesis by simp
    next
      case ne: False
      with False have "k' < k" by simp
      with Cons e False ne show ?thesis
        using keys_kv_set [of k v s] by (auto simp: image_iff)
    qed
  qed
qed

lemma fold_kv_delete: "fold kv_delete ks s = filter (\<lambda>e. fst e \<notin> set ks) s"
proof (induction ks arbitrary: s)
  case Nil
  then show ?case by simp
next
  case (Cons k ks)
  then show ?case by (simp add: kv_delete_def conj_commute)
qed

lemma sorted_kv_list: "sorted_wrt (<) (map fst s) \<Longrightarrow> sorted_wrt (<) (map fst (kv_list pre s))"
  by (simp add: kv_list_def sorted_wrt_map sorted_wrt_filter)

lemma key_inv_Nil: "key_inv []"
  by (simp add: key_inv_def)

lemma key_inv_kv_set: "key_inv s \<Longrightarrow> key_of v = Some k \<Longrightarrow> key_inv (kv_set k v s)"
  using set_kv_set [of k v s] by (auto simp: key_inv_def list_all_iff)

lemma key_of_shape:
  "key_of r = Some k \<Longrightarrow> \<exists>n. k = [KStr ''responses'', KNum (of_nat (timestamp r)), n]"
  by (auto simp: key_of_def responses_key_def split: sum.splits)

lemma key_of_less:
  "key_of a = Some ka \<Longrightarrow> key_of b = Some kb \<Longrightarrow> ka < kb \<Longrightarrow> timestamp a \<le> timestamp b"
  by (auto dest!: key_of_shape)

lemma scanned_inv: "key_inv s \<Longrightarrow> scanned s = s"
  unfolding scanned_def kv_list_def key_inv_def list_all_iff
  by (rule filter_True) (auto dest!: bspec key_of_shape)

lemma sorted_timestamps:
  "key_inv s \<Longrightarrow> sorted_wrt (<) (map fst s) \<Longrightarrow> sorted (map (\<lambda>e. timestamp (snd e)) s)"
proof (induction s)
  case Nil
  then show ?case by simp
next
  case (Cons e s)
  then show ?case
    by (auto simp: key_inv_def list_all_iff intro: key_of_less)
qed

text \<open>What the two handlers that write do to the store.\<close>

lemma post_responses_preserves:
  assumes "P s" and "\<And>k v. key_of v = Some k \<Longrightarrow> P (kv_set k v s)"
  shows "P (snd (post_responses now rej req s))"
  using assms
  by (auto simp: post_responses_def key_of_def Let_def split: option.splits sum.splits)

lemma delete_responses_store:
  "\<exists>P. snd (delete_responses rej nm s) = filter P s"
proof (cases "truthy (map_option JStr nm)")
  case False
  then have "snd (delete_responses rej nm s) = filter (\<lambda>e. True) s"
    by (simp add: delete_responses_def)
  then show ?thesis by blast
next
  case True
  then show ?thesis
    by (auto simp: delete_responses_def Let_def fold_kv_delete)
qed

lemma key_inv_post: "key_inv s \<Longrightarrow> key_inv (snd (post_responses now rej req s))"
  by (rule post_responses_preserves) (simp_all add: key_inv_kv_set)

lemma key_inv_delete: "key_inv s \<Longrightarrow> key_inv (snd (delete_responses rej nm s))"
  using delete_responses_store [of rej nm s] by (auto simp: key_inv_def list_all_iff)

lemma sorted_post:
  "sorted_wrt (<) (map fst s) \<Longrightarrow> sorted_wrt (<) (map fst (snd (post_responses now rej req s)))"
  by (rule post_responses_preserves [where P = "\<lambda>s. sorted_wrt (<) (map fst s)"])
     (simp_all add: sorted_kv_set)

lemma sorted_delete:
  "sorted_wrt (<) (map fst s) \<Longrightarrow> sorted_wrt (<) (map fst (snd (delete_responses rej nm s)))"
  using delete_responses_store [of rej nm s] by (auto simp: sorted_wrt_map sorted_wrt_filter)

lemma reachable_wf: "reachable s \<Longrightarrow> key_inv s \<and> sorted_wrt (<) (map fst s)"
  by (induction rule: reachable.induct)
     (simp_all add: key_inv_Nil key_inv_post key_inv_delete sorted_post sorted_delete)

lemma post_stored:
  "post_responses t (\<lambda>k v. False)
     (Some (JObj [(''name'', JStr n), (''responses'', JObj [])])) s
   = (\<lparr>status = 200, body = Success\<rparr>, kv_set (fst (stored t n)) (snd (stored t n)) s)"
  by (simp add: post_responses_def stored_def or_empty_def)

lemma post_named:
  "post_responses t (\<lambda>k v. False)
     (Some (JObj [(''name'', JStr n), (''responses'', JObj f)])) s
   = (\<lparr>status = 200, body = Success\<rparr>,
      kv_set (responses_key t (KStr n))
        \<lparr>name = Some (JStr n), timestamp = t,
         responses = \<lparr>teachLLMs = or_empty (map_of (rev f) ''teachLLMs''),
                      syntheticStudents = or_empty (map_of (rev f) ''syntheticStudents'')\<rparr>\<rparr> s)"
  by (simp add: post_responses_def)

lemma reachable_stored:
  "reachable s \<Longrightarrow> reachable (kv_set (fst (stored t n)) (snd (stored t n)) s)"
  using reach_write [of s t "\<lambda>k v. False" "Some (JObj [(''name'', JStr n), (''responses'', JObj [])])"]
  by (simp add: post_stored)

lemma reachable_two:
  "t < u \<Longrightarrow> reachable [stored t n, stored u m]"
proof -
  assume "t < u"
  then have "kv_set (fst (stored u m)) (snd (stored u m))
          (kv_set (fst (stored t n)) (snd (stored t n)) []) = [stored t n, stored u m]"
    by (simp add: stored_def responses_key_def)
  with reachable_stored [OF reachable_stored [OF reach_empty], of u m t n]
  show ?thesis by simp
qed

text \<open>
  C7. In every store state reached from the empty store by writes and deletes, each
  entry's key is \<open>("responses", t, n)\<close> with \<open>t\<close> the timestamp field and \<open>n\<close> the name
  field of the record stored under it; a write and a delete each keep that so, whatever
  the request and whatever the store rejects.
\<close>

theorem key_matches_record:
  "(reachable s \<longrightarrow>
      (\<forall>e \<in> set s. \<exists>n. key_part (name (snd e)) = Inr n
          \<and> fst e = [KStr ''responses'', KNum (of_nat (timestamp (snd e))), n]))
   \<and> (key_inv s \<longrightarrow>
        key_inv (snd (post_responses now set_rejects req s))
        \<and> key_inv (snd (delete_responses delete_rejects nm s)))"
proof -
  have "\<exists>n. key_part (name (snd e)) = Inr n
          \<and> fst e = [KStr ''responses'', KNum (of_nat (timestamp (snd e))), n]"
    if "reachable s" "e \<in> set s" for e
  proof -
    from that reachable_wf have "key_of (snd e) = Some (fst e)"
      by (auto simp: key_inv_def list_all_iff)
    then show ?thesis
      by (auto simp: key_of_def responses_key_def split: sum.splits)
  qed
  then show ?thesis
    by (auto simp: key_inv_post key_inv_delete)
qed

theorem key_matches_record_witness:
  "reachable [stored 5 ''b'', stored 7 ''a'']
   \<and> key_part (name (snd (stored 7 ''a''))) = Inr (KStr ''a'')
   \<and> fst (stored 7 ''a'') = [KStr ''responses'', KNum 7, KStr ''a'']
   \<and> key_inv [stored 5 ''b'', stored 7 ''a'']
   \<and> key_inv (snd (post_responses 9 (\<lambda>k v. False)
        (Some (JObj [(''name'', JStr ''c''), (''responses'', JObj [])]))
        [stored 5 ''b'', stored 7 ''a'']))
   \<and> key_inv (snd (delete_responses (\<lambda>k. False) (Some ''b'') [stored 5 ''b'', stored 7 ''a'']))"
proof -
  have r: "reachable [stored 5 ''b'', stored 7 ''a'']"
    by (rule reachable_two) simp
  have i: "key_inv [stored 5 ''b'', stored 7 ''a'']"
    by (simp add: key_inv_def key_of_def stored_def)
  from key_matches_record [of "[stored 5 ''b'', stored 7 ''a'']" 9 "\<lambda>k v. False"
      "Some (JObj [(''name'', JStr ''c''), (''responses'', JObj [])])" "\<lambda>k. False" "Some ''b''"]
  show ?thesis using r i by (simp add: stored_def responses_key_def)
qed

section \<open>Writing a response\<close>

lemma accepted_iff: "(truthy v \<and> typeof v = ''object'') = structured v"
  by (cases v rule: truthy.cases) (simp_all add: structured_def)

lemma get_prop_structured: "structured v \<Longrightarrow> \<exists>x. get_prop v p = Inr x"
  by (cases v rule: truthy.cases) (simp_all add: structured_def)

text \<open>
  C8. A write whose answers are absent, \<open>null\<close> or not a structured value (not an
  object and not an array) is answered 400 with \<open>Invalid response format\<close> and leaves
  the store as it was. A write of a name the store takes as a key part with the empty
  answers object \<open>{}\<close>, which the store does not reject, is answered 200 and stores one
  record, under the key of its time and name, whose \<open>teachLLMs\<close> and
  \<open>syntheticStudents\<close> are both the empty string; every other key keeps its record, and
  the store has one entry more when the key is new.
\<close>

theorem write_validation:
  "(get_prop (Some b) ''name'' = Inr nm \<and> get_prop (Some b) ''responses'' = Inr rs
      \<and> \<not> structured rs \<longrightarrow>
      post_responses now set_rejects (Some b) s
        = (\<lparr>status = 400, body = Error ''Invalid response format''\<rparr>, s))
   \<and> (get_prop (Some b) ''name'' = Inr nm
      \<and> get_prop (Some b) ''responses'' = Inr (Some (JObj []))
      \<and> key_part nm = Inr n
      \<and> \<not> set_rejects (responses_key now n)
            \<lparr>name = nm, timestamp = now,
             responses = \<lparr>teachLLMs = JStr [], syntheticStudents = JStr []\<rparr>\<rparr> \<longrightarrow>
      post_responses now set_rejects (Some b) s
        = (\<lparr>status = 200, body = Success\<rparr>,
           kv_set (responses_key now n)
             \<lparr>name = nm, timestamp = now,
              responses = \<lparr>teachLLMs = JStr [], syntheticStudents = JStr []\<rparr>\<rparr> s)
      \<and> map_of (snd (post_responses now set_rejects (Some b) s))
          = (map_of s)(responses_key now n \<mapsto>
               \<lparr>name = nm, timestamp = now,
                responses = \<lparr>teachLLMs = JStr [], syntheticStudents = JStr []\<rparr>\<rparr>)
      \<and> (responses_key now n \<notin> fst ` set s \<longrightarrow>
            length (snd (post_responses now set_rejects (Some b) s)) = Suc (length s)))"
  by (auto simp: post_responses_def accepted_iff or_empty_def map_of_kv_set length_kv_set)

theorem write_validation_witness:
  "get_prop (Some (JObj [(''name'', JStr ''ann'')])) ''responses'' = Inr None
   \<and> \<not> structured None
   \<and> post_responses 5 (\<lambda>k v. False) (Some (JObj [(''name'', JStr ''ann'')])) [stored 3 ''bob'']
       = (\<lparr>status = 400, body = Error ''Invalid response format''\<rparr>, [stored 3 ''bob''])
   \<and> post_responses 5 (\<lambda>k v. False)
        (Some (JObj [(''name'', JStr ''ann''), (''responses'', JNum 7)])) [stored 3 ''bob'']
       = (\<lparr>status = 400, body = Error ''Invalid response format''\<rparr>, [stored 3 ''bob''])
   \<and> post_responses 5 (\<lambda>k v. False)
        (Some (JObj [(''name'', JStr ''ann''), (''responses'', JNull)])) [stored 3 ''bob'']
       = (\<lparr>status = 400, body = Error ''Invalid response format''\<rparr>, [stored 3 ''bob''])
   \<and> key_part (Some (JStr ''ann'')) = Inr (KStr ''ann'')
   \<and> post_responses 5 (\<lambda>k v. False)
        (Some (JObj [(''name'', JStr ''ann''), (''responses'', JObj [])])) [stored 3 ''bob'']
       = (\<lparr>status = 200, body = Success\<rparr>, [stored 3 ''bob'', stored 5 ''ann''])
   \<and> length (snd (post_responses 5 (\<lambda>k v. False)
        (Some (JObj [(''name'', JStr ''ann''), (''responses'', JObj [])])) [stored 3 ''bob''])) = 2"
  using write_validation [where b = "JObj [(''name'', JStr ''ann'')]"
      and nm = "Some (JStr ''ann'')" and rs = None and now = 5
      and set_rejects = "\<lambda>k v. False" and s = "[stored 3 ''bob'']" and n = "KStr ''ann''"]
    write_validation [where b = "JObj [(''name'', JStr ''ann''), (''responses'', JNum 7)]"
      and nm = "Some (JStr ''ann'')" and rs = "Some (JNum 7)" and now = 5
      and set_rejects = "\<lambda>k v. False" and s = "[stored 3 ''bob'']" and n = "KStr ''ann''"]
    write_validation [where b = "JObj [(''name'', JStr ''ann''), (''responses'', JNull)]"
      and nm = "Some (JStr ''ann'')" and rs = "Some JNull" and now = 5
      and set_rejects = "\<lambda>k v. False" and s = "[stored 3 ''bob'']" and n = "KStr ''ann''"]
    write_validation [where b = "JObj [(''name'', JStr ''ann''), (''responses'', JObj [])]"
      and nm = "Some (JStr ''ann'')" and rs = "Some (JObj [])" and now = 5
      and set_rejects = "\<lambda>k v. False" and s = "[stored 3 ''bob'']" and n = "KStr ''ann''"]
  by (simp add: structured_def stored_def responses_key_def)

text \<open>
  C10. The validation of a write turns down exactly the \<open>responses\<close> values that are
  not both truthy and of type \<open>object\<close>, with 400 and the store unchanged; the values it
  accepts are the objects and the arrays. So \<open>undefined\<close>, \<open>null\<close>, numbers, strings
  and booleans are turned down, and an array is accepted: with a name the store takes
  as a key part and no rejection by the store, the write is answered 200 and the record
  stored has the empty string in both answer fields.
\<close>

theorem write_accepts_objects_and_arrays:
  "(get_prop (Some b) ''name'' = Inr nm \<and> get_prop (Some b) ''responses'' = Inr rs \<longrightarrow>
      (post_responses now set_rejects (Some b) s
         = (\<lparr>status = 400, body = Error ''Invalid response format''\<rparr>, s))
      = (\<not> (truthy rs \<and> typeof rs = ''object'')))
   \<and> (truthy rs \<and> typeof rs = ''object'') = (\<exists>xs fs. rs = Some (JArr xs) \<or> rs = Some (JObj fs))
   \<and> (get_prop (Some b) ''name'' = Inr nm
      \<and> get_prop (Some b) ''responses'' = Inr (Some (JArr xs))
      \<and> key_part nm = Inr n
      \<and> \<not> set_rejects (responses_key now n)
            \<lparr>name = nm, timestamp = now,
             responses = \<lparr>teachLLMs = JStr [], syntheticStudents = JStr []\<rparr>\<rparr> \<longrightarrow>
      post_responses now set_rejects (Some b) s
        = (\<lparr>status = 200, body = Success\<rparr>,
           kv_set (responses_key now n)
             \<lparr>name = nm, timestamp = now,
              responses = \<lparr>teachLLMs = JStr [], syntheticStudents = JStr []\<rparr>\<rparr> s))"
proof -
  have a: "(post_responses now set_rejects (Some b) s
         = (\<lparr>status = 400, body = Error ''Invalid response format''\<rparr>, s))
      = (\<not> (truthy rs \<and> typeof rs = ''object''))"
    if "get_prop (Some b) ''name'' = Inr nm" "get_prop (Some b) ''responses'' = Inr rs"
  proof (cases "truthy rs \<and> typeof rs = ''object''")
    case False
    with that show ?thesis by (auto simp: post_responses_def)
  next
    case True
    then have "structured rs" by (simp add: accepted_iff)
    from get_prop_structured [OF this] obtain t y where
      "get_prop rs ''teachLLMs'' = Inr t" "get_prop rs ''syntheticStudents'' = Inr y"
      by blast
    with that True show ?thesis
      by (auto simp: post_responses_def Let_def internal_error_def split: sum.splits)
  qed
  have b: "(truthy rs \<and> typeof rs = ''object'')
           = (\<exists>xs fs. rs = Some (JArr xs) \<or> rs = Some (JObj fs))"
    by (cases rs rule: truthy.cases) simp_all
  show ?thesis
    using a b by (auto simp: post_responses_def or_empty_def)
qed

theorem write_accepts_objects_and_arrays_witness:
  "post_responses 5 (\<lambda>k v. False)
        (Some (JObj [(''name'', JStr ''ann''), (''responses'', JArr [])])) []
       = (\<lparr>status = 200, body = Success\<rparr>, [stored 5 ''ann''])
   \<and> post_responses 5 (\<lambda>k v. False)
        (Some (JObj [(''name'', JStr ''ann''), (''responses'', JNum 0)])) []
       = (\<lparr>status = 400, body = Error ''Invalid response format''\<rparr>, [])
   \<and> post_responses 5 (\<lambda>k v. False)
        (Some (JObj [(''name'', JStr ''ann''), (''responses'', JStr ''yes'')])) []
       = (\<lparr>status = 400, body = Error ''Invalid response format''\<rparr>, [])"
  using write_accepts_objects_and_arrays
      [where b = "JObj [(''name'', JStr ''ann''), (''responses'', JArr [])]"
       and nm = "Some (JStr ''ann'')" and rs = "Some (JArr [])" and now = 5
       and set_rejects = "\<lambda>k v. False" and s = "[]" and xs = "[]" and n = "KStr ''ann''"]
    write_accepts_objects_and_arrays
      [where b = "JObj [(''name'', JStr ''ann''), (''responses'', JNum 0)]"
       and nm = "Some (JStr ''ann'')" and rs = "Some (JNum 0)" and now = 5
       and set_rejects = "\<lambda>k v. False" and s = "[]" and xs = "[]" and n = "KStr ''ann''"]
    write_accepts_objects_and_arrays
      [where b = "JObj [(''name'', JStr ''ann''), (''responses'', JStr ''yes'')]"
       and nm = "Some (JStr ''ann'')" and rs = "Some (JStr ''yes'')" and now = 5
       and set_rejects = "\<lambda>k v. False" and s = "[]" and xs = "[]" and n = "KStr ''ann''"]
  by (simp add: stored_def)

section \<open>Listing the responses\<close>

lemma key_with_key: "map key (map with_key es) = map fst es"
  by (simp add: with_key_def)

lemma timestamp_with_key: "map timestamp (map with_key es) = map (\<lambda>e. timestamp (snd e)) es"
  by (simp add: with_key_def)

text \<open>One turn of the loop, in the terms of the filter.\<close>

lemma list_loop_step:
  "list_loop (query lmt off sn nf) (e # es) sk inc acc tk =
     (if \<not> passes sn nf e then list_loop (query lmt off sn nf) es sk inc acc (Suc tk)
      else if sk < off then list_loop (query lmt off sn nf) es (Suc sk) inc acc (Suc tk)
      else if lmt \<le> inc then (acc, Suc tk)
      else list_loop (query lmt off sn nf) es sk (Suc inc) (acc @ [with_key e]) (Suc tk))"
  by (cases nf) (auto simp: query_def passes_def)

lemma list_loop_fst:
  "sk \<le> off \<Longrightarrow> inc \<le> lmt \<Longrightarrow>
   fst (list_loop (query lmt off sn nf) es sk inc acc tk)
     = acc @ map with_key (take (lmt - inc) (drop (off - sk) (filter (passes sn nf) es)))"
proof (induction es arbitrary: sk inc acc tk)
  case Nil
  then show ?case by simp
next
  case (Cons e es)
  show ?case
  proof (cases "passes sn nf e")
    case False
    with Cons show ?thesis by (simp add: list_loop_step del: list_loop.simps)
  next
    case True
    show ?thesis
    proof (cases "sk < off")
      case sk: True
      then have "off - sk = Suc (off - Suc sk)" by simp
      with True sk Cons show ?thesis by (simp add: list_loop_step del: list_loop.simps)
    next
      case nsk: False
      with Cons.prems have eq: "sk = off" by simp
      show ?thesis
      proof (cases "inc < lmt")
        case lt: True
        then have "lmt - inc = Suc (lmt - Suc inc)" by simp
        with True lt eq Cons show ?thesis by (simp add: list_loop_step del: list_loop.simps)
      next
        case False
        with True eq show ?thesis by (simp add: list_loop_step del: list_loop.simps)
      qed
    qed
  qed
qed

lemma list_loop_snd:
  "sk \<le> off \<Longrightarrow> inc \<le> lmt \<Longrightarrow>
   snd (list_loop (query lmt off sn nf) es sk inc acc tk)
     = tk + prefix_len (passes sn nf) ((off - sk) + (lmt - inc)) es"
proof (induction es arbitrary: sk inc acc tk)
  case Nil
  then show ?case by simp
next
  case (Cons e es)
  show ?case
  proof (cases "passes sn nf e")
    case False
    with Cons show ?thesis by (simp add: list_loop_step del: list_loop.simps)
  next
    case True
    show ?thesis
    proof (cases "sk < off")
      case sk: True
      then have "(off - sk) + (lmt - inc) = Suc ((off - Suc sk) + (lmt - inc))" by simp
      with True sk Cons show ?thesis by (simp add: list_loop_step del: list_loop.simps)
    next
      case nsk: False
      with Cons.prems have eq: "sk = off" by simp
      show ?thesis
      proof (cases "inc < lmt")
        case lt: True
        then have "lmt - inc = Suc (lmt - Suc inc)" by simp
        with True lt eq Cons show ?thesis by (simp add: list_loop_step del: list_loop.simps)
      next
        case False
        with True eq show ?thesis by (simp add: list_loop_step del: list_loop.simps)
      qed
    qed
  qed
qed

lemma prefix_len_exhaust: "length (filter P xs) \<le> n \<Longrightarrow> prefix_len P n xs = length xs"
  by (induction xs arbitrary: n) (auto split: nat.splits)

lemma prefix_len_le: "prefix_len P n xs \<le> length xs"
  by (induction xs arbitrary: n) (auto split: nat.splits)

lemma prefix_len_stop:
  "n < length (filter P xs) \<Longrightarrow>
   0 < prefix_len P n xs \<and> P (xs ! (prefix_len P n xs - 1))
   \<and> length (filter P (take (prefix_len P n xs) xs)) = Suc n"
proof (induction xs arbitrary: n)
  case Nil
  then show ?case by simp
next
  case (Cons x xs)
  show ?case
  proof (cases "P x")
    case False
    with Cons.prems have "n < length (filter P xs)" by simp
    from Cons.IH [OF this] False show ?thesis by (auto simp: nth_Cons split: nat.splits)
  next
    case True
    show ?thesis
    proof (cases n)
      case 0
      with True show ?thesis by simp
    next
      case (Suc m)
      with Cons.prems True have "m < length (filter P xs)" by simp
      from Cons.IH [OF this] True Suc show ?thesis by (auto simp: nth_Cons split: nat.splits)
    qed
  qed
qed

lemma fields_with_key:
  "map (\<lambda>i. (key i, name i, timestamp i, responses i)) (map with_key es)
   = map (\<lambda>e. (fst e, name (snd e), timestamp (snd e), responses (snd e))) es"
  by (simp add: with_key_def)

text \<open>
  C1, as the code has it. For every store and every filter of natural \<open>limit\<close> and
  \<open>offset\<close>, integer \<open>since\<close> and optional \<open>name\<close>, the listing scans the entries
  under the \<open>responses\<close> prefix in the store's key order and returns exactly those whose
  timestamp is at least \<open>since\<close> and whose name is the one asked for (an empty name
  asked for is no filter), after the first \<open>offset\<close> of them are skipped, and at most
  \<open>limit\<close> of them: each returned item has the name, the timestamp and the answers of
  its record and, as \<open>key\<close>, the key of its entry. The scan does not stop when the last
  of the \<open>limit\<close> records is collected: it stops at the next entry that passes the
  filters, which is the entry number \<open>offset + limit + 1\<close> among those that pass, and it
  runs to the end of the store when there is no such entry.
\<close>

theorem list_filter_offset_limit:
  "map (\<lambda>i. (key i, name i, timestamp i, responses i))
       (fst (list_loop (query lmt off sn nf) es 0 0 [] 0))
     = map (\<lambda>e. (fst e, name (snd e), timestamp (snd e), responses (snd e)))
         (take lmt (drop off (filter (passes sn nf) es)))
   \<and> (length (filter (passes sn nf) es) \<le> off + lmt \<longrightarrow>
        snd (list_loop (query lmt off sn nf) es 0 0 [] 0) = length es)
   \<and> (off + lmt < length (filter (passes sn nf) es) \<longrightarrow>
        0 < snd (list_loop (query lmt off sn nf) es 0 0 [] 0)
        \<and> snd (list_loop (query lmt off sn nf) es 0 0 [] 0) \<le> length es
        \<and> passes sn nf (es ! (snd (list_loop (query lmt off sn nf) es 0 0 [] 0) - 1))
        \<and> length (filter (passes sn nf)
                    (take (snd (list_loop (query lmt off sn nf) es 0 0 [] 0)) es))
            = Suc (off + lmt))
   \<and> (\<exists>items.
        get_responses (query lmt off sn nf) s
          = \<lparr>status = 200,
             body = Listing items
               \<lparr>meta_limit = Fin (int lmt), meta_offset = Fin (int off),
                count = length (take lmt (drop off (filter (passes sn nf) (scanned s)))),
                filters_since = (if sn = 0 then None else Some (Fin sn)),
                filters_name = (case nf of None \<Rightarrow> None
                                | Some n \<Rightarrow> if n = [] then None else Some n)\<rparr>\<rparr>
        \<and> map (\<lambda>i. (key i, name i, timestamp i, responses i)) items
            = map (\<lambda>e. (fst e, name (snd e), timestamp (snd e), responses (snd e)))
                (take lmt (drop off (filter (passes sn nf) (scanned s))))
        \<and> (sorted_wrt (<) (map fst s) \<longrightarrow> sorted_wrt (<) (map key items)))"
proof -
  let ?r = "list_loop (query lmt off sn nf) es 0 0 [] 0"
  have f: "fst (list_loop (query lmt off sn nf) xs 0 0 [] 0)
           = map with_key (take lmt (drop off (filter (passes sn nf) xs)))" for xs
    using list_loop_fst [of 0 off 0 lmt sn nf xs "[]" 0] by simp
  have p: "map (\<lambda>i. (key i, name i, timestamp i, responses i))
             (fst (list_loop (query lmt off sn nf) xs 0 0 [] 0))
           = map (\<lambda>e. (fst e, name (snd e), timestamp (snd e), responses (snd e)))
               (take lmt (drop off (filter (passes sn nf) xs)))" for xs
    unfolding f by (rule fields_with_key)
  have t: "snd ?r = prefix_len (passes sn nf) (off + lmt) es"
    using list_loop_snd [of 0 off 0 lmt sn nf es "[]" 0] by simp
  have a: "length (filter (passes sn nf) es) \<le> off + lmt \<longrightarrow> snd ?r = length es"
    by (simp add: t prefix_len_exhaust)
  have b: "off + lmt < length (filter (passes sn nf) es) \<longrightarrow>
        0 < snd ?r \<and> snd ?r \<le> length es \<and> passes sn nf (es ! (snd ?r - 1))
        \<and> length (filter (passes sn nf) (take (snd ?r) es)) = Suc (off + lmt)"
    unfolding t using prefix_len_stop [of "off + lmt" "passes sn nf" es]
      prefix_len_le [of "passes sn nf" "off + lmt" es] by blast
  let ?items = "fst (list_loop (query lmt off sn nf) (scanned s) 0 0 [] 0)"
  have len: "length ?items = length (take lmt (drop off (filter (passes sn nf) (scanned s))))"
    unfolding f by simp
  have "get_responses (query lmt off sn nf) s
          = \<lparr>status = 200,
             body = Listing ?items
               \<lparr>meta_limit = limit (query lmt off sn nf), meta_offset = offset (query lmt off sn nf),
                count = length ?items,
                filters_since = or_null (since (query lmt off sn nf)),
                filters_name = (if truthy (map_option JStr (name_filter (query lmt off sn nf)))
                                then name_filter (query lmt off sn nf) else None)\<rparr>\<rparr>"
    by (simp add: get_responses_def Let_def scanned_def)
  then have c: "get_responses (query lmt off sn nf) s
          = \<lparr>status = 200,
             body = Listing ?items
               \<lparr>meta_limit = Fin (int lmt), meta_offset = Fin (int off),
                count = length (take lmt (drop off (filter (passes sn nf) (scanned s)))),
                filters_since = (if sn = 0 then None else Some (Fin sn)),
                filters_name = (case nf of None \<Rightarrow> None
                                | Some n \<Rightarrow> if n = [] then None else Some n)\<rparr>\<rparr>"
    unfolding len by (cases nf) (simp_all add: query_def or_null_def)
  have d: "sorted_wrt (<) (map fst s) \<longrightarrow> sorted_wrt (<) (map key ?items)"
  proof
    assume "sorted_wrt (<) (map fst s)"
    then have "sorted_wrt (<) (map fst (scanned s))"
      unfolding scanned_def by (rule sorted_kv_list)
    then have "sorted_wrt (\<lambda>a b. fst a < fst b)
                 (take lmt (drop off (filter (passes sn nf) (scanned s))))"
      by (simp add: sorted_wrt_map sorted_wrt_filter sorted_wrt_take sorted_wrt_drop)
    then show "sorted_wrt (<) (map key ?items)"
      unfolding f key_with_key by (simp add: sorted_wrt_map)
  qed
  from c p [of "scanned s"] d have e: "\<exists>items.
        get_responses (query lmt off sn nf) s
          = \<lparr>status = 200,
             body = Listing items
               \<lparr>meta_limit = Fin (int lmt), meta_offset = Fin (int off),
                count = length (take lmt (drop off (filter (passes sn nf) (scanned s)))),
                filters_since = (if sn = 0 then None else Some (Fin sn)),
                filters_name = (case nf of None \<Rightarrow> None
                                | Some n \<Rightarrow> if n = [] then None else Some n)\<rparr>\<rparr>
        \<and> map (\<lambda>i. (key i, name i, timestamp i, responses i)) items
            = map (\<lambda>e. (fst e, name (snd e), timestamp (snd e), responses (snd e)))
                (take lmt (drop off (filter (passes sn nf) (scanned s))))
        \<and> (sorted_wrt (<) (map fst s) \<longrightarrow> sorted_wrt (<) (map key items))"
    by blast
  from p [of es] a b e show ?thesis by blast
qed

theorem list_filter_offset_limit_witness:
  "fst (list_loop (query 1 0 0 (Some ''a''))
          [stored 1 ''a'', stored 2 ''b'', stored 3 ''a'', stored 4 ''a''] 0 0 [] 0)
     = [\<lparr>name = Some (JStr ''a''), timestamp = 1,
         responses = \<lparr>teachLLMs = JStr [], syntheticStudents = JStr []\<rparr>,
         key = [KStr ''responses'', KNum 1, KStr ''a'']\<rparr>]
   \<and> 0 + 1 < length (filter (passes 0 (Some ''a''))
                      [stored 1 ''a'', stored 2 ''b'', stored 3 ''a'', stored 4 ''a''])
   \<and> snd (list_loop (query 1 0 0 (Some ''a''))
          [stored 1 ''a'', stored 2 ''b'', stored 3 ''a'', stored 4 ''a''] 0 0 [] 0) = 3
   \<and> length (filter (passes 0 (Some ''a''))
        (take (snd (list_loop (query 1 0 0 (Some ''a''))
                 [stored 1 ''a'', stored 2 ''b'', stored 3 ''a'', stored 4 ''a''] 0 0 [] 0))
           [stored 1 ''a'', stored 2 ''b'', stored 3 ''a'', stored 4 ''a''])) = Suc (0 + 1)
   \<and> map (\<lambda>i. (key i, name i, timestamp i, responses i))
        (fst (list_loop (query 5 1 2 None)
          [stored 1 ''a'', stored 2 ''b'', stored 3 ''a'', stored 4 ''a''] 0 0 [] 0))
     = [([KStr ''responses'', KNum 3, KStr ''a''], Some (JStr ''a''), 3,
         \<lparr>teachLLMs = JStr [], syntheticStudents = JStr []\<rparr>),
        ([KStr ''responses'', KNum 4, KStr ''a''], Some (JStr ''a''), 4,
         \<lparr>teachLLMs = JStr [], syntheticStudents = JStr []\<rparr>)]
   \<and> length (filter (passes 2 None)
               [stored 1 ''a'', stored 2 ''b'', stored 3 ''a'', stored 4 ''a'']) \<le> 1 + 5
   \<and> snd (list_loop (query 5 1 2 None)
          [stored 1 ''a'', stored 2 ''b'', stored 3 ''a'', stored 4 ''a''] 0 0 [] 0) = 4
   \<and> get_responses (query 5 1 2 None)
        [stored 1 ''a'', stored 2 ''b'', stored 3 ''a'', stored 4 ''a'']
     = \<lparr>status = 200,
        body = Listing
          [\<lparr>name = Some (JStr ''a''), timestamp = 3,
            responses = \<lparr>teachLLMs = JStr [], syntheticStudents = JStr []\<rparr>,
            key = [KStr ''responses'', KNum 3, KStr ''a'']\<rparr>,
           \<lparr>name = Some (JStr ''a''), timestamp = 4,
            responses = \<lparr>teachLLMs = JStr [], syntheticStudents = JStr []\<rparr>,
            key = [KStr ''responses'', KNum 4, KStr ''a'']\<rparr>]
          \<lparr>meta_limit = Fin 5, meta_offset = Fin 1, count = 2,
           filters_since = Some (Fin 2), filters_name = None\<rparr>\<rparr>"
proof -
  let ?es = "[stored 1 ''a'', stored 2 ''b'', stored 3 ''a'', stored 4 ''a'']"
  note t1 = list_filter_offset_limit [where lmt = 1 and off = 0 and sn = 0
      and nf = "Some ''a''" and es = ?es and s = ?es]
  note t2 = list_filter_offset_limit [where lmt = 5 and off = 1 and sn = 2
      and nf = None and es = ?es and s = ?es]
  have p1: "filter (passes 0 (Some ''a'')) ?es = [stored 1 ''a'', stored 3 ''a'', stored 4 ''a'']"
    by (simp add: passes_def stored_def)
  have p2: "filter (passes 2 None) ?es = [stored 2 ''b'', stored 3 ''a'', stored 4 ''a'']"
    by (simp add: passes_def stored_def)
  have a: "fst (list_loop (query 1 0 0 (Some ''a'')) ?es 0 0 [] 0)
     = [\<lparr>name = Some (JStr ''a''), timestamp = 1,
         responses = \<lparr>teachLLMs = JStr [], syntheticStudents = JStr []\<rparr>,
         key = [KStr ''responses'', KNum 1, KStr ''a'']\<rparr>]"
    by (simp add: query_def stored_def with_key_def responses_key_def)
  have g: "0 + 1 < length (filter (passes 0 (Some ''a'')) ?es)"
    unfolding p1 by simp
  have b: "snd (list_loop (query 1 0 0 (Some ''a'')) ?es 0 0 [] 0) = 3"
    by (simp add: query_def stored_def)
  from t1 have "0 + 1 < length (filter (passes 0 (Some ''a'')) ?es) \<longrightarrow>
        0 < snd (list_loop (query 1 0 0 (Some ''a'')) ?es 0 0 [] 0)
        \<and> snd (list_loop (query 1 0 0 (Some ''a'')) ?es 0 0 [] 0) \<le> length ?es
        \<and> passes 0 (Some ''a'') (?es ! (snd (list_loop (query 1 0 0 (Some ''a'')) ?es 0 0 [] 0) - 1))
        \<and> length (filter (passes 0 (Some ''a''))
                    (take (snd (list_loop (query 1 0 0 (Some ''a'')) ?es 0 0 [] 0)) ?es))
            = Suc (0 + 1)"
    by (rule conjunct1 [OF conjunct2 [OF conjunct2]])
  with g have "0 < snd (list_loop (query 1 0 0 (Some ''a'')) ?es 0 0 [] 0)
        \<and> snd (list_loop (query 1 0 0 (Some ''a'')) ?es 0 0 [] 0) \<le> length ?es
        \<and> passes 0 (Some ''a'') (?es ! (snd (list_loop (query 1 0 0 (Some ''a'')) ?es 0 0 [] 0) - 1))
        \<and> length (filter (passes 0 (Some ''a''))
                    (take (snd (list_loop (query 1 0 0 (Some ''a'')) ?es 0 0 [] 0)) ?es))
            = Suc (0 + 1)"
    by (rule rev_mp)
  then have k: "length (filter (passes 0 (Some ''a''))
                    (take (snd (list_loop (query 1 0 0 (Some ''a'')) ?es 0 0 [] 0)) ?es))
            = Suc (0 + 1)"
    by (rule conjunct2 [OF conjunct2 [OF conjunct2]])
  from t2 have y: "map (\<lambda>i. (key i, name i, timestamp i, responses i))
                     (fst (list_loop (query 5 1 2 None) ?es 0 0 [] 0))
                = map (\<lambda>e. (fst e, name (snd e), timestamp (snd e), responses (snd e)))
                    (take 5 (drop 1 (filter (passes 2 None) ?es)))"
    by (rule conjunct1)
  have c: "map (\<lambda>i. (key i, name i, timestamp i, responses i))
             (fst (list_loop (query 5 1 2 None) ?es 0 0 [] 0))
     = [([KStr ''responses'', KNum 3, KStr ''a''], Some (JStr ''a''), 3,
         \<lparr>teachLLMs = JStr [], syntheticStudents = JStr []\<rparr>),
        ([KStr ''responses'', KNum 4, KStr ''a''], Some (JStr ''a''), 4,
         \<lparr>teachLLMs = JStr [], syntheticStudents = JStr []\<rparr>)]"
    unfolding y p2 by (simp add: stored_def responses_key_def)
  have h: "length (filter (passes 2 None) ?es) \<le> 1 + 5"
    unfolding p2 by simp
  from t2 have "length (filter (passes 2 None) ?es) \<le> 1 + 5 \<longrightarrow>
                snd (list_loop (query 5 1 2 None) ?es 0 0 [] 0) = length ?es"
    by (rule conjunct1 [OF conjunct2])
  with h have z: "snd (list_loop (query 5 1 2 None) ?es 0 0 [] 0) = length ?es"
    by (rule rev_mp)
  have d: "snd (list_loop (query 5 1 2 None) ?es 0 0 [] 0) = 4"
    unfolding z by simp
  have e: "get_responses (query 5 1 2 None) ?es
     = \<lparr>status = 200,
        body = Listing
          [\<lparr>name = Some (JStr ''a''), timestamp = 3,
            responses = \<lparr>teachLLMs = JStr [], syntheticStudents = JStr []\<rparr>,
            key = [KStr ''responses'', KNum 3, KStr ''a'']\<rparr>,
           \<lparr>name = Some (JStr ''a''), timestamp = 4,
            responses = \<lparr>teachLLMs = JStr [], syntheticStudents = JStr []\<rparr>,
            key = [KStr ''responses'', KNum 4, KStr ''a'']\<rparr>]
          \<lparr>meta_limit = Fin 5, meta_offset = Fin 1, count = 2,
           filters_since = Some (Fin 2), filters_name = None\<rparr>\<rparr>"
    by (simp add: get_responses_def query_def kv_list_def stored_def with_key_def
        responses_key_def or_null_def)
  from a g b k c h d e show ?thesis
    by (intro conjI)
qed

text \<open>
  With the limit 1 and the name \<open>a\<close> asked for, the record of \<open>a\<close> is collected
  from the first entry, and the limit is reached there. On the store that holds an entry
  of \<open>b\<close> after it, the loop takes that entry too: it scans the store to its end.
\<close>

theorem list_scan_counterexample:
  "list_loop (query 1 0 0 (Some ''a'')) (scanned [stored 1 ''a'']) 0 0 [] 0
     = ([\<lparr>name = Some (JStr ''a''), timestamp = 1,
          responses = \<lparr>teachLLMs = JStr [], syntheticStudents = JStr []\<rparr>,
          key = [KStr ''responses'', KNum 1, KStr ''a'']\<rparr>], 1)
   \<and> list_loop (query 1 0 0 (Some ''a'')) (scanned [stored 1 ''a'', stored 2 ''b'']) 0 0 [] 0
     = ([\<lparr>name = Some (JStr ''a''), timestamp = 1,
          responses = \<lparr>teachLLMs = JStr [], syntheticStudents = JStr []\<rparr>,
          key = [KStr ''responses'', KNum 1, KStr ''a'']\<rparr>], 2)
   \<and> length (scanned [stored 1 ''a'', stored 2 ''b'']) = 2"
  by (simp add: query_def scanned_def kv_list_def with_key_def stored_def responses_key_def)

text \<open>
  C6. For every store state reached by writes (and deletes), the listing with no
  filter and a limit of at least the number of stored records returns all the records,
  in the store's order: the items have, one for one, the keys, names, timestamps and
  answers of the stored entries. Their timestamps are in non-decreasing order.
\<close>

theorem list_all_in_time_order:
  "reachable s \<Longrightarrow> length s \<le> lmt \<Longrightarrow>
   \<exists>items.
     get_responses (query lmt 0 0 None) s
       = \<lparr>status = 200,
          body = Listing items
            \<lparr>meta_limit = Fin (int lmt), meta_offset = Fin 0, count = length s,
             filters_since = None, filters_name = None\<rparr>\<rparr>
     \<and> map (\<lambda>i. (key i, name i, timestamp i, responses i)) items
         = map (\<lambda>e. (fst e, name (snd e), timestamp (snd e), responses (snd e))) s
     \<and> sorted (map timestamp items)"
proof -
  assume r: "reachable s" and l: "length s \<le> lmt"
  from r have wf: "key_inv s" "sorted_wrt (<) (map fst s)"
    using reachable_wf by auto
  have all: "filter (passes 0 None) s = s"
    by (simp add: passes_def)
  have items: "fst (list_loop (query lmt 0 0 None) s 0 0 [] 0) = map with_key s"
    using list_loop_fst [of 0 0 0 lmt 0 None s "[]" 0] l by (simp add: all)
  have "kv_list [KStr ''responses''] s = s"
    using scanned_inv [OF wf(1)] by (simp add: scanned_def)
  with items have "get_responses (query lmt 0 0 None) s
     = \<lparr>status = 200,
        body = Listing (map with_key s)
          \<lparr>meta_limit = Fin (int lmt), meta_offset = Fin 0, count = length s,
           filters_since = None, filters_name = None\<rparr>\<rparr>"
    by (simp add: get_responses_def or_null_def) (simp add: query_def)
  moreover have "sorted (map timestamp (map with_key s))"
    unfolding timestamp_with_key using wf by (rule sorted_timestamps)
  ultimately show ?thesis
    using fields_with_key [of s] by blast
qed

theorem list_all_in_time_order_witness:
  "reachable [stored 5 ''b'', stored 7 ''a'']
   \<and> length [stored 5 ''b'', stored 7 ''a''] \<le> 100
   \<and> get_responses (query 100 0 0 None) [stored 5 ''b'', stored 7 ''a'']
     = \<lparr>status = 200,
        body = Listing
          [\<lparr>name = Some (JStr ''b''), timestamp = 5,
            responses = \<lparr>teachLLMs = JStr [], syntheticStudents = JStr []\<rparr>,
            key = [KStr ''responses'', KNum 5, KStr ''b'']\<rparr>,
           \<lparr>name = Some (JStr ''a''), timestamp = 7,
            responses = \<lparr>teachLLMs = JStr [], syntheticStudents = JStr []\<rparr>,
            key = [KStr ''responses'', KNum 7, KStr ''a'']\<rparr>]
          \<lparr>meta_limit = Fin 100, meta_offset = Fin 0, count = 2,
           filters_since = None, filters_name = None\<rparr>\<rparr>
   \<and> sorted [5, 7 :: nat]"
proof -
  let ?s = "[stored 5 ''b'', stored 7 ''a'']"
  have r: "reachable ?s"
    by (rule reachable_two) simp
  have l: "length ?s \<le> 100"
    by simp
  from list_all_in_time_order [OF r l] obtain items where
    eq: "get_responses (query 100 0 0 None) ?s
       = \<lparr>status = 200,
          body = Listing items
            \<lparr>meta_limit = Fin (int 100), meta_offset = Fin 0, count = length ?s,
             filters_since = None, filters_name = None\<rparr>\<rparr>"
    and fs: "map (\<lambda>i. (key i, name i, timestamp i, responses i)) items
         = map (\<lambda>e. (fst e, name (snd e), timestamp (snd e), responses (snd e))) ?s"
    and srt: "sorted (map timestamp items)"
    by blast
  from fs have ts: "map timestamp items = [5, 7]"
    by (auto simp: stored_def)
  have lit: "get_responses (query 100 0 0 None) ?s
     = \<lparr>status = 200,
        body = Listing
          [\<lparr>name = Some (JStr ''b''), timestamp = 5,
            responses = \<lparr>teachLLMs = JStr [], syntheticStudents = JStr []\<rparr>,
            key = [KStr ''responses'', KNum 5, KStr ''b'']\<rparr>,
           \<lparr>name = Some (JStr ''a''), timestamp = 7,
            responses = \<lparr>teachLLMs = JStr [], syntheticStudents = JStr []\<rparr>,
            key = [KStr ''responses'', KNum 7, KStr ''a'']\<rparr>]
          \<lparr>meta_limit = Fin 100, meta_offset = Fin 0, count = 2,
           filters_since = None, filters_name = None\<rparr>\<rparr>"
    by (simp add: get_responses_def query_def kv_list_def stored_def with_key_def
        responses_key_def or_null_def)
  from srt have "sorted [5, 7 :: nat]"
    unfolding ts .
  with r l lit show ?thesis
    by (intro conjI)
qed

section \<open>The statistics\<close>

lemma foldl_stats_step:
  "foldl stats_step st es =
     \<lparr>acc_total = acc_total st + length es,
      uniqueNames = uniqueNames st \<union> set (names es),
      acc_first = foldl js_min (acc_first st) (map (\<lambda>t. Fin (int t)) (timestamps es)),
      acc_last = foldl js_max (acc_last st) (map (\<lambda>t. Fin (int t)) (timestamps es))\<rparr>"
  by (induction es arbitrary: st) (simp_all add: stats_step_def names_def timestamps_def)

lemma foldl_js_min:
  "foldl js_min (Fin (int a)) (map (\<lambda>t. Fin (int t)) ts) = Fin (int (Min (insert a (set ts))))"
proof (induction ts arbitrary: a)
  case Nil
  then show ?case by simp
next
  case (Cons t ts)
  have "js_min (Fin (int a)) (Fin (int t)) = Fin (int (min a t))"
    by (simp add: min_def)
  moreover have "Min (insert (min a t) (set ts)) = Min (insert a (insert t (set ts)))"
    by (cases "ts = []") (simp_all add: min.assoc)
  ultimately show ?case using Cons.IH [of "min a t"] by simp
qed

lemma foldl_js_max:
  "foldl js_max (Fin (int a)) (map (\<lambda>t. Fin (int t)) ts) = Fin (int (Max (insert a (set ts))))"
proof (induction ts arbitrary: a)
  case Nil
  then show ?case by simp
next
  case (Cons t ts)
  have "js_max (Fin (int a)) (Fin (int t)) = Fin (int (max a t))"
    by (simp add: max_def)
  moreover have "Max (insert (max a t) (set ts)) = Max (insert a (insert t (set ts)))"
    by (cases "ts = []") (simp_all add: max.assoc)
  ultimately show ?case using Cons.IH [of "max a t"] by simp
qed

lemma first_of_scan:
  "ts \<noteq> [] \<Longrightarrow> foldl js_min PosInf (map (\<lambda>t. Fin (int t)) ts) = Fin (int (Min (set ts)))"
  by (cases ts) (simp_all add: foldl_js_min)

lemma last_of_scan:
  "ts \<noteq> [] \<Longrightarrow> foldl js_max (Fin 0) (map (\<lambda>t. Fin (int t)) ts) = Fin (int (Max (set ts)))"
proof -
  assume ne: "ts \<noteq> []"
  have "foldl js_max (Fin (int 0)) (map (\<lambda>t. Fin (int t)) ts)
        = Fin (int (Max (insert 0 (set ts))))"
    by (rule foldl_js_max)
  moreover from ne have "Max (insert 0 (set ts)) = Max (set ts)"
    by simp
  ultimately show ?thesis by simp
qed

lemma get_stats_empty:
  "scanned s = [] \<Longrightarrow>
   get_stats s = \<lparr>status = 200, body = Stats
     \<lparr>total = 0, uniqueParticipants = 0, first = None, last = None, durationMs = NegInf\<rparr>\<rparr>"
  by (simp add: get_stats_def scanned_def)

lemma get_stats_scan:
  assumes ne: "scanned s \<noteq> []" and pos: "0 < Max (set (timestamps (scanned s)))"
  shows "get_stats s = \<lparr>status = 200, body = Stats
     \<lparr>total = length (scanned s), uniqueParticipants = card (set (names (scanned s))),
      first = Some (Fin (int (Min (set (timestamps (scanned s)))))),
      last = Some (Fin (int (Max (set (timestamps (scanned s)))))),
      durationMs = Fin (int (Max (set (timestamps (scanned s))))
                        - int (Min (set (timestamps (scanned s)))))\<rparr>\<rparr>"
proof -
  from ne have "timestamps (scanned s) \<noteq> []" by (simp add: timestamps_def)
  with pos show ?thesis
    by (simp add: get_stats_def foldl_stats_step first_of_scan last_of_scan Let_def
        flip: scanned_def)
qed

lemma get_stats_positive:
  assumes ne: "scanned s \<noteq> []" and pos: "\<forall>e \<in> set s. 0 < timestamp (snd e)"
  shows "0 < Max (set (timestamps (scanned s)))"
proof -
  let ?ts = "timestamps (scanned s)"
  from ne have tne: "?ts \<noteq> []" by (simp add: timestamps_def)
  have "set (scanned s) \<subseteq> set s" by (auto simp: scanned_def kv_list_def)
  with pos have "\<forall>t \<in> set ?ts. 0 < t" by (auto simp: timestamps_def)
  moreover from tne have "Max (set ?ts) \<in> set ?ts" by (intro Max_in) simp_all
  ultimately show ?thesis by blast
qed

text \<open>Three writes for the names \<open>a\<close>, \<open>b\<close>, \<open>a\<close>, the two of \<open>a\<close> at different times.\<close>

lemma three_writes:
  assumes "t1 \<noteq> t3"
  shows "get_stats
         (snd (post_responses t3 (\<lambda>k v. False)
                (Some (JObj [(''name'', JStr ''a''), (''responses'', JObj f3)]))
           (snd (post_responses t2 (\<lambda>k v. False)
                  (Some (JObj [(''name'', JStr ''b''), (''responses'', JObj f2)]))
             (snd (post_responses t1 (\<lambda>k v. False)
                    (Some (JObj [(''name'', JStr ''a''), (''responses'', JObj f1)])) []))))))
       = \<lparr>status = 200, body = Stats
           \<lparr>total = 3, uniqueParticipants = 2,
            first = Some (Fin (int (min t1 (min t2 t3)))),
            last = Some (Fin (int (max t1 (max t2 t3)))),
            durationMs = Fin (int (max t1 (max t2 t3)) - int (min t1 (min t2 t3)))\<rparr>\<rparr>"
proof -
  let ?s = "snd (post_responses t3 (\<lambda>k v. False)
                (Some (JObj [(''name'', JStr ''a''), (''responses'', JObj f3)]))
           (snd (post_responses t2 (\<lambda>k v. False)
                  (Some (JObj [(''name'', JStr ''b''), (''responses'', JObj f2)]))
             (snd (post_responses t1 (\<lambda>k v. False)
                    (Some (JObj [(''name'', JStr ''a''), (''responses'', JObj f1)])) [])))))"
  define r1 where "r1 = \<lparr>name = Some (JStr ''a''), timestamp = t1,
         responses = \<lparr>teachLLMs = or_empty (map_of (rev f1) ''teachLLMs''),
                      syntheticStudents = or_empty (map_of (rev f1) ''syntheticStudents'')\<rparr>\<rparr>"
  define r2 where "r2 = \<lparr>name = Some (JStr ''b''), timestamp = t2,
         responses = \<lparr>teachLLMs = or_empty (map_of (rev f2) ''teachLLMs''),
                      syntheticStudents = or_empty (map_of (rev f2) ''syntheticStudents'')\<rparr>\<rparr>"
  define r3 where "r3 = \<lparr>name = Some (JStr ''a''), timestamp = t3,
         responses = \<lparr>teachLLMs = or_empty (map_of (rev f3) ''teachLLMs''),
                      syntheticStudents = or_empty (map_of (rev f3) ''syntheticStudents'')\<rparr>\<rparr>"
  define k1 where "k1 = responses_key t1 (KStr ''a'')"
  define k2 where "k2 = responses_key t2 (KStr ''b'')"
  define k3 where "k3 = responses_key t3 (KStr ''a'')"
  have s: "?s = kv_set k3 r3 (kv_set k2 r2 (kv_set k1 r1 []))"
    by (simp add: post_named r1_def r2_def r3_def k1_def k2_def k3_def)
  have ne: "k2 \<noteq> k1" "k3 \<noteq> k2" "k3 \<noteq> k1"
    using assms by (simp_all add: k1_def k2_def k3_def responses_key_def)
  have keys2: "fst ` set (kv_set k2 r2 (kv_set k1 r1 [])) = {k2, k1}"
    by (simp add: keys_kv_set del: kv_set.simps)
  have set2: "set (kv_set k2 r2 (kv_set k1 r1 [])) = {(k2, r2), (k1, r1)}"
    using ne by (simp add: set_kv_set_new del: kv_set.simps)
  have set3: "set ?s = {(k3, r3), (k2, r2), (k1, r1)}"
    unfolding s using ne by (simp add: set_kv_set_new keys2 set2 del: kv_set.simps)
  have len: "length ?s = 3"
    unfolding s using ne by (simp add: length_kv_set keys2 keys_kv_set del: kv_set.simps)
  have "reachable ?s"
    by (intro reach_write reach_empty)
  then have sc: "scanned ?s = ?s"
    using reachable_wf scanned_inv by blast
  have nm: "set (names ?s) = {Some (JStr ''a''), Some (JStr ''b'')}"
    unfolding names_def set_map set3 by (auto simp: r1_def r2_def r3_def)
  have ts: "set (timestamps ?s) = {t1, t2, t3}"
    unfolding timestamps_def set_map set3 by (auto simp: r1_def r2_def r3_def)
  have mx: "Max {t1, t2, t3} = max t1 (max t2 t3)"
    and mn: "Min {t1, t2, t3} = min t1 (min t2 t3)"
    by simp_all
  from assms have pos: "0 < max t1 (max t2 t3)" by (auto simp: max_def)
  from len have "?s \<noteq> []" by auto
  with get_stats_scan [of ?s] sc pos show ?thesis
    by (simp add: len nm ts mx mn card_insert_if del: Max_insert Min_insert)
qed

text \<open>
  C3. On a store whose timestamps are positive, as those of \<open>Date.now()\<close> are, the
  statistics count every record under the \<open>responses\<close> prefix: \<open>total\<close> is their
  number, \<open>uniqueParticipants\<close> the number of distinct names, \<open>first\<close> and \<open>last\<close> the
  least and the greatest timestamp. On the empty store \<open>total\<close> and
  \<open>uniqueParticipants\<close> are 0 and \<open>first\<close> and \<open>last\<close> are \<open>null\<close>. After three writes
  for the names \<open>a\<close>, \<open>b\<close>, \<open>a\<close>, the two of \<open>a\<close> at different times, \<open>total\<close> is 3 and
  \<open>uniqueParticipants\<close> is 2.
\<close>

theorem stats_totals:
  "((\<forall>e \<in> set s. 0 < timestamp (snd e)) \<longrightarrow>
     get_stats s = \<lparr>status = 200, body = Stats
       \<lparr>total = length (scanned s),
        uniqueParticipants = card (set (names (scanned s))),
        first = (if scanned s = [] then None
                 else Some (Fin (int (Min (set (timestamps (scanned s))))))),
        last = (if scanned s = [] then None
                else Some (Fin (int (Max (set (timestamps (scanned s))))))),
        durationMs = (if scanned s = [] then NegInf
                      else Fin (int (Max (set (timestamps (scanned s))))
                                - int (Min (set (timestamps (scanned s))))))\<rparr>\<rparr>)
   \<and> get_stats [] = \<lparr>status = 200, body = Stats
       \<lparr>total = 0, uniqueParticipants = 0, first = None, last = None, durationMs = NegInf\<rparr>\<rparr>
   \<and> (t1 \<noteq> t3 \<longrightarrow>
       get_stats
         (snd (post_responses t3 (\<lambda>k v. False)
                (Some (JObj [(''name'', JStr ''a''), (''responses'', JObj f3)]))
           (snd (post_responses t2 (\<lambda>k v. False)
                  (Some (JObj [(''name'', JStr ''b''), (''responses'', JObj f2)]))
             (snd (post_responses t1 (\<lambda>k v. False)
                    (Some (JObj [(''name'', JStr ''a''), (''responses'', JObj f1)])) []))))))
       = \<lparr>status = 200, body = Stats
           \<lparr>total = 3, uniqueParticipants = 2,
            first = Some (Fin (int (min t1 (min t2 t3)))),
            last = Some (Fin (int (max t1 (max t2 t3)))),
            durationMs = Fin (int (max t1 (max t2 t3)) - int (min t1 (min t2 t3)))\<rparr>\<rparr>)"
proof -
  have a: "(\<forall>e \<in> set s. 0 < timestamp (snd e)) \<longrightarrow>
     get_stats s = \<lparr>status = 200, body = Stats
       \<lparr>total = length (scanned s),
        uniqueParticipants = card (set (names (scanned s))),
        first = (if scanned s = [] then None
                 else Some (Fin (int (Min (set (timestamps (scanned s))))))),
        last = (if scanned s = [] then None
                else Some (Fin (int (Max (set (timestamps (scanned s))))))),
        durationMs = (if scanned s = [] then NegInf
                      else Fin (int (Max (set (timestamps (scanned s))))
                                - int (Min (set (timestamps (scanned s))))))\<rparr>\<rparr>"
  proof (cases "scanned s = []")
    case True
    then show ?thesis by (simp add: get_stats_empty names_def)
  next
    case False
    then show ?thesis by (simp add: get_stats_scan get_stats_positive)
  qed
  have b: "get_stats [] = \<lparr>status = 200, body = Stats
       \<lparr>total = 0, uniqueParticipants = 0, first = None, last = None, durationMs = NegInf\<rparr>\<rparr>"
    by (simp add: get_stats_empty scanned_def kv_list_def)
  from a b three_writes [of t1 t3 f3 t2 f2 f1] show ?thesis by blast
qed

theorem stats_totals_witness:
  "0 < timestamp (snd (stored 5 ''a'')) \<and> 0 < timestamp (snd (stored 6 ''b''))
   \<and> 0 < timestamp (snd (stored 9 ''a''))
   \<and> get_stats [stored 5 ''a'', stored 6 ''b'', stored 9 ''a'']
       = \<lparr>status = 200, body = Stats
           \<lparr>total = 3, uniqueParticipants = 2, first = Some (Fin 5), last = Some (Fin 9),
            durationMs = Fin 4\<rparr>\<rparr>
   \<and> (5::nat) \<noteq> 9
   \<and> snd (post_responses 9 (\<lambda>k v. False)
            (Some (JObj [(''name'', JStr ''a''), (''responses'', JObj [])]))
       (snd (post_responses 6 (\<lambda>k v. False)
              (Some (JObj [(''name'', JStr ''b''), (''responses'', JObj [])]))
         (snd (post_responses 5 (\<lambda>k v. False)
                (Some (JObj [(''name'', JStr ''a''), (''responses'', JObj [])])) [])))))
       = [stored 5 ''a'', stored 6 ''b'', stored 9 ''a'']"
  using stats_totals [where s = "[stored 5 ''a'', stored 6 ''b'', stored 9 ''a'']"
      and ?t1.0 = 5 and ?t2.0 = 6 and ?t3.0 = 9 and ?f1.0 = "[]" and ?f2.0 = "[]" and ?f3.0 = "[]"]
  by (simp add: post_stored stored_def responses_key_def scanned_def kv_list_def
      names_def timestamps_def card_insert_if)

section \<open>Deleting by name\<close>

lemma key_of_entry:
  assumes srt: "sorted_wrt (<) (map fst (s :: kv))" and e: "e \<in> set s" and e': "e' \<in> set s"
    and k: "fst e' = fst e"
  shows "e' = e"
proof -
  from srt have "distinct (map fst s)"
    by (simp add: strict_sorted_iff)
  then have "inj_on fst (set s)"
    by (simp add: distinct_map)
  with e e' k show ?thesis
    by (auto dest: inj_onD)
qed

text \<open>
  C2, as the code has it. For every store and every non-empty name, when none of the
  dispatched deletes rejects, the answer is 200 and its \<open>deleted\<close> count is the number of
  records whose name field matched during the scan. When one of them rejects, the
  answer is 500 with \<open>Internal server error\<close> and carries no count. In both cases the
  deletes that did not reject are applied: the store loses exactly the entries under the
  key of a matching record whose delete did not reject, which in a store reached by
  writes and deletes are the matching records themselves whose delete did not reject.
\<close>

theorem delete_count:
  "n \<noteq> [] \<Longrightarrow>
   delete_responses delete_rejects (Some n) s
     = (if list_ex delete_rejects (map fst (matching n s)) then internal_error
        else \<lparr>status = 200, body = Deleted (length (matching n s))\<rparr>,
        filter (\<lambda>e. \<not> (fst e \<in> fst ` set (matching n s) \<and> \<not> delete_rejects (fst e))) s)
   \<and> length (matching n s)
       = length (filter (\<lambda>e. name (snd e) = Some (JStr n)) (kv_list [KStr ''responses''] s))
   \<and> (reachable s \<longrightarrow>
        snd (delete_responses delete_rejects (Some n) s)
          = filter (\<lambda>e. \<not> (name (snd e) = Some (JStr n) \<and> \<not> delete_rejects (fst e))) s)"
proof -
  assume n: "n \<noteq> []"
  let ?keep = "\<lambda>e. \<not> (fst e \<in> fst ` set (matching n s) \<and> \<not> delete_rejects (fst e))"
  have st: "snd (delete_responses delete_rejects (Some n) s) = filter ?keep s"
    using n by (simp add: delete_responses_def matching_def scanned_def Let_def fold_kv_delete)
  have rs: "fst (delete_responses delete_rejects (Some n) s)
     = (if list_ex delete_rejects (map fst (matching n s)) then internal_error
        else \<lparr>status = 200, body = Deleted (length (matching n s))\<rparr>)"
    using n by (simp add: delete_responses_def matching_def scanned_def Let_def)
  have a: "delete_responses delete_rejects (Some n) s
     = (if list_ex delete_rejects (map fst (matching n s)) then internal_error
        else \<lparr>status = 200, body = Deleted (length (matching n s))\<rparr>,
        filter ?keep s)"
    using rs st by (simp add: prod_eq_iff)
  have b: "length (matching n s)
       = length (filter (\<lambda>e. name (snd e) = Some (JStr n)) (kv_list [KStr ''responses''] s))"
    by (simp add: matching_def scanned_def)
  have c: "snd (delete_responses delete_rejects (Some n) s)
          = filter (\<lambda>e. \<not> (name (snd e) = Some (JStr n) \<and> \<not> delete_rejects (fst e))) s"
    if r: "reachable s"
  proof -
    from r have wf: "key_inv s" "sorted_wrt (<) (map fst s)"
      using reachable_wf by auto
    have m: "matching n s = filter (\<lambda>e. name (snd e) = Some (JStr n)) s"
      by (simp add: matching_def scanned_inv [OF wf(1)])
    have "(fst e \<in> fst ` set (matching n s)) = (name (snd e) = Some (JStr n))"
      if e: "e \<in> set s" for e
    proof
      assume "fst e \<in> fst ` set (matching n s)"
      then obtain e' where e': "e' \<in> set s" "name (snd e') = Some (JStr n)" "fst e' = fst e"
        unfolding m by auto
      from key_of_entry [OF wf(2) e e'(1) e'(3)] e'(2)
      show "name (snd e) = Some (JStr n)" by simp
    next
      assume "name (snd e) = Some (JStr n)"
      with e show "fst e \<in> fst ` set (matching n s)"
        unfolding m by auto
    qed
    then have "filter ?keep s
               = filter (\<lambda>e. \<not> (name (snd e) = Some (JStr n) \<and> \<not> delete_rejects (fst e))) s"
      by (intro filter_cong) auto
    with st show ?thesis by simp
  qed
  from a b c show ?thesis by blast
qed

theorem delete_count_witness:
  "''x'' \<noteq> []
   \<and> reachable [stored 5 ''x'', stored 6 ''y'']
   \<and> delete_responses (\<lambda>k. False) (Some ''x'') [stored 5 ''x'', stored 6 ''y'', stored 7 ''x'']
       = (\<lparr>status = 200, body = Deleted 2\<rparr>,
          [([KStr ''responses'', KNum 6, KStr ''y''],
            \<lparr>name = Some (JStr ''y''), timestamp = 6,
             responses = \<lparr>teachLLMs = JStr [], syntheticStudents = JStr []\<rparr>\<rparr>)])
   \<and> delete_responses (\<lambda>k. False) (Some ''x'') [stored 5 ''x'', stored 6 ''y'']
       = (\<lparr>status = 200, body = Deleted 1\<rparr>,
          [([KStr ''responses'', KNum 6, KStr ''y''],
            \<lparr>name = Some (JStr ''y''), timestamp = 6,
             responses = \<lparr>teachLLMs = JStr [], syntheticStudents = JStr []\<rparr>\<rparr>)])"
proof -
  have n: "''x'' \<noteq> []"
    by simp
  have r: "reachable [stored 5 ''x'', stored 6 ''y'']"
    by (rule reachable_two) simp
  have m3: "matching ''x'' [stored 5 ''x'', stored 6 ''y'', stored 7 ''x'']
            = [stored 5 ''x'', stored 7 ''x'']"
    by (simp add: matching_def scanned_def kv_list_def stored_def responses_key_def)
  have m2: "matching ''x'' [stored 5 ''x'', stored 6 ''y''] = [stored 5 ''x'']"
    by (simp add: matching_def scanned_def kv_list_def stored_def responses_key_def)
  from delete_count [OF n, of "\<lambda>k. False" "[stored 5 ''x'', stored 6 ''y'', stored 7 ''x'']"]
  have a: "delete_responses (\<lambda>k. False) (Some ''x'') [stored 5 ''x'', stored 6 ''y'', stored 7 ''x'']
       = (\<lparr>status = 200, body = Deleted 2\<rparr>,
          [([KStr ''responses'', KNum 6, KStr ''y''],
            \<lparr>name = Some (JStr ''y''), timestamp = 6,
             responses = \<lparr>teachLLMs = JStr [], syntheticStudents = JStr []\<rparr>\<rparr>)])"
    unfolding m3 by (simp add: stored_def responses_key_def)
  from delete_count [OF n, of "\<lambda>k. False" "[stored 5 ''x'', stored 6 ''y'']"] r
  have b: "delete_responses (\<lambda>k. False) (Some ''x'') [stored 5 ''x'', stored 6 ''y'']
       = (\<lparr>status = 200, body = Deleted 1\<rparr>,
          [([KStr ''responses'', KNum 6, KStr ''y''],
            \<lparr>name = Some (JStr ''y''), timestamp = 6,
             responses = \<lparr>teachLLMs = JStr [], syntheticStudents = JStr []\<rparr>\<rparr>)])"
    unfolding m2 by (simp add: stored_def responses_key_def)
  from n r a b show ?thesis
    by (intro conjI)
qed

text \<open>
  Two records of \<open>x\<close> are found by the scan; the delete of the second rejects. The
  first record is gone, and the answer is the 500 of the \<open>catch\<close>, not a count of 2.
\<close>

theorem delete_count_counterexample:
  "length (matching ''x'' [stored 5 ''x'', stored 6 ''x'']) = 2
   \<and> delete_responses (\<lambda>k. k = [KStr ''responses'', KNum 6, KStr ''x'']) (Some ''x'')
        [stored 5 ''x'', stored 6 ''x'']
       = (\<lparr>status = 500, body = Error ''Internal server error''\<rparr>,
          [([KStr ''responses'', KNum 6, KStr ''x''],
            \<lparr>name = Some (JStr ''x''), timestamp = 6,
             responses = \<lparr>teachLLMs = JStr [], syntheticStudents = JStr []\<rparr>\<rparr>)])"
  by (simp add: matching_def scanned_def delete_responses_def kv_list_def stored_def
      responses_key_def kv_delete_def internal_error_def Let_def)

end
